theory Spec2Isabelle
  imports Complex_Main "HOL-Library.Sublist"
begin

section \<open>Python values of the crawler\<close>

text \<open>
  The crawler of \<^verbatim>\<open>fetch_local_finance_data.py\<close> works on whatever
  \<^verbatim>\<open>response.json()\<close> returns, so the parsed body is an arbitrary JSON value and
  every operation on it can raise. JSON numbers are taken to be integers (the API's
  \<^verbatim>\<open>list_total_count\<close> is a record count), an object is its list of items
  in order (keys distinct, as in a Python dict), and a character is its code point below 256.
\<close>

datatype json =
    JNull
  | JBool bool
  | JInt int
  | JStr string
  | JList "json list"
  | JDict "(string \<times> json) list"

datatype py_error =
    TypeError
  | KeyError
  | IndexError
  | AttributeError
  | ZeroDivisionError
  | ValueError
  | UnboundLocalError

text \<open>Truth value of a Python object, as tested by \<^verbatim>\<open>not x\<close> and \<^verbatim>\<open>if x\<close>.\<close>

fun truthy :: "json \<Rightarrow> bool" where
  "truthy JNull = False"
| "truthy (JBool b) = b"
| "truthy (JInt n) = (n \<noteq> 0)"
| "truthy (JStr s) = (s \<noteq> [])"
| "truthy (JList xs) = (xs \<noteq> [])"
| "truthy (JDict kvs) = (kvs \<noteq> [])"

text \<open>\<^verbatim>\<open>key in x\<close> for a string key: key lookup in a dict, membership in a list,
  substring test in a string, TypeError on anything else.\<close>

fun py_in :: "string \<Rightarrow> json \<Rightarrow> py_error + bool" where
  "py_in k (JDict kvs) = Inr (map_of kvs k \<noteq> None)"
| "py_in k (JList xs) = Inr (List.member xs (JStr k))"
| "py_in k (JStr s) = Inr (sublist k s)"
| "py_in k JNull = Inl TypeError"
| "py_in k (JBool b) = Inl TypeError"
| "py_in k (JInt n) = Inl TypeError"

text \<open>\<^verbatim>\<open>x[key]\<close> for a string key: only a dict accepts it.\<close>

fun py_getitem :: "json \<Rightarrow> string \<Rightarrow> py_error + json" where
  "py_getitem (JDict kvs) k = (case map_of kvs k of None \<Rightarrow> Inl KeyError | Some v \<Rightarrow> Inr v)"
| "py_getitem JNull k = Inl TypeError"
| "py_getitem (JBool b) k = Inl TypeError"
| "py_getitem (JInt n) k = Inl TypeError"
| "py_getitem (JStr s) k = Inl TypeError"
| "py_getitem (JList xs) k = Inl TypeError"

text \<open>\<^verbatim>\<open>x[0]\<close>: the first element of a list or string; a dict parsed from JSON has
  string keys only, so the key 0 is missing.\<close>

fun py_first :: "json \<Rightarrow> py_error + json" where
  "py_first (JList []) = Inl IndexError"
| "py_first (JList (x # xs)) = Inr x"
| "py_first (JStr []) = Inl IndexError"
| "py_first (JStr (c # cs)) = Inr (JStr [c])"
| "py_first (JDict kvs) = Inl KeyError"
| "py_first JNull = Inl TypeError"
| "py_first (JBool b) = Inl TypeError"
| "py_first (JInt n) = Inl TypeError"

text \<open>\<^verbatim>\<open>x.get(key)\<close>: a dict method; missing keys give None.\<close>

fun py_get :: "json \<Rightarrow> string \<Rightarrow> py_error + json" where
  "py_get (JDict kvs) k = Inr (case map_of kvs k of None \<Rightarrow> JNull | Some v \<Rightarrow> v)"
| "py_get JNull k = Inl AttributeError"
| "py_get (JBool b) k = Inl AttributeError"
| "py_get (JInt n) k = Inl AttributeError"
| "py_get (JStr s) k = Inl AttributeError"
| "py_get (JList xs) k = Inl AttributeError"

text \<open>Iteration (\<^verbatim>\<open>for item in x\<close>, \<^verbatim>\<open>list.extend(x)\<close>): the elements of a
  list, the keys of a dict, the characters of a string.\<close>

fun py_iter :: "json \<Rightarrow> py_error + json list" where
  "py_iter (JList xs) = Inr xs"
| "py_iter (JDict kvs) = Inr (map (\<lambda>kv. JStr (fst kv)) kvs)"
| "py_iter (JStr s) = Inr (map (\<lambda>c. JStr [c]) s)"
| "py_iter JNull = Inl TypeError"
| "py_iter (JBool b) = Inl TypeError"
| "py_iter (JInt n) = Inl TypeError"

text \<open>A value used as a number: Python's bool is an int; arithmetic or an order comparison
  of an int with anything else raises TypeError (\<open>None\<close> here).\<close>

fun num_of :: "json \<Rightarrow> int option" where
  "num_of (JInt n) = Some n"
| "num_of (JBool b) = Some (if b then 1 else 0)"
| "num_of JNull = None"
| "num_of (JStr s) = None"
| "num_of (JList xs) = None"
| "num_of (JDict kvs) = None"

section \<open>The response classifier\<close>

text \<open>The generator inside \<^verbatim>\<open>all(...)\<close> of \<^verbatim>\<open>is_empty_response\<close>:
  \<^verbatim>\<open>'row' not in item or not item['row']\<close> for each item, stopping at the first
  item that has a populated row value.\<close>

fun all_rows_missing :: "json list \<Rightarrow> py_error + bool" where
  "all_rows_missing [] = Inr True"
| "all_rows_missing (item # rest) =
     (case py_in ''row'' item of
        Inl e \<Rightarrow> Inl e
      | Inr False \<Rightarrow> all_rows_missing rest
      | Inr True \<Rightarrow>
          (case py_getitem item ''row'' of
             Inl e \<Rightarrow> Inl e
           | Inr r \<Rightarrow> if truthy r then Inr False else all_rows_missing rest))"

definition is_empty_response :: "json \<Rightarrow> py_error + bool" where
  "is_empty_response response_json =
     (if \<not> truthy response_json then Inr True
      else
        (case py_in ''QWGJK'' response_json of
           Inl e \<Rightarrow> Inl e
         | Inr False \<Rightarrow> Inr False
         | Inr True \<Rightarrow>
             (case py_getitem response_json ''QWGJK'' of
                Inl e \<Rightarrow> Inl e
              | Inr v \<Rightarrow>
                  if \<not> truthy v then Inr True
                  else
                    (case py_iter v of
                       Inl e \<Rightarrow> Inl e
                     | Inr items \<Rightarrow>
                         (case all_rows_missing items of
                            Inl e \<Rightarrow> Inl e
                          | Inr True \<Rightarrow> Inr True
                          | Inr False \<Rightarrow> Inr False)))))"

text \<open>The row extraction of \<^verbatim>\<open>crawl_data\<close>:
  \<^verbatim>\<open>for item in response_json['QWGJK']: if 'row' in item: row_data.extend(item['row'])\<close>.\<close>

fun extend_rows :: "json list \<Rightarrow> json list \<Rightarrow> py_error + json list" where
  "extend_rows row_data [] = Inr row_data"
| "extend_rows row_data (item # rest) =
     (case py_in ''row'' item of
        Inl e \<Rightarrow> Inl e
      | Inr False \<Rightarrow> extend_rows row_data rest
      | Inr True \<Rightarrow>
          (case py_getitem item ''row'' of
             Inl e \<Rightarrow> Inl e
           | Inr r \<Rightarrow>
               (case py_iter r of
                  Inl e \<Rightarrow> Inl e
                | Inr xs \<Rightarrow> extend_rows (row_data @ xs) rest)))"

definition extract_rows :: "json \<Rightarrow> py_error + json list" where
  "extract_rows response_json =
     (case py_getitem response_json ''QWGJK'' of
        Inl e \<Rightarrow> Inl e
      | Inr v \<Rightarrow>
          (case py_iter v of
             Inl e \<Rightarrow> Inl e
           | Inr items \<Rightarrow> extend_rows [] items))"

text \<open>The page-1 metadata scan: every \<^verbatim>\<open>head\<close> entry that has the key
  \<^verbatim>\<open>list_total_count\<close> overwrites \<^verbatim>\<open>total_count\<close>; an exception in the middle
  of the scan leaves the value assigned so far.\<close>

fun scan_head :: "json \<Rightarrow> json list \<Rightarrow> json \<times> py_error option" where
  "scan_head total_count [] = (total_count, None)"
| "scan_head total_count (meta_item # rest) =
     (case py_in ''list_total_count'' meta_item of
        Inl e \<Rightarrow> (total_count, Some e)
      | Inr False \<Rightarrow> scan_head total_count rest
      | Inr True \<Rightarrow>
          (case py_getitem meta_item ''list_total_count'' of
             Inl e \<Rightarrow> (total_count, Some e)
           | Inr v \<Rightarrow> scan_head v rest))"

section \<open>The page crawler\<close>

text \<open>
  The configuration values read by the crawler (\<^verbatim>\<open>config.py\<close>); every number comes
  from \<^verbatim>\<open>int(os.getenv(...))\<close> and so may be negative.
\<close>

record config =
  api_key :: "string option"
  api_max_records_per_request :: int
  api_max_retries :: int
  api_retry_delay :: int
  data_start_year :: int
  data_end_year :: int

text \<open>
  What \<^verbatim>\<open>session.post\<close> gives back: an exception, or a response with its status
  code, its text and the value of \<^verbatim>\<open>response.json()\<close> (\<open>None\<close> when decoding
  raises JSONDecodeError). The server is a function of the number of requests issued before
  and of the requested page, so that its answers may change between attempts.
\<close>

record response =
  status_code :: int
  resp_text :: string
  json_body :: "json option"

datatype post_result =
    RequestException
  | OtherException
  | Returns response

type_synonym server = "nat \<Rightarrow> nat \<Rightarrow> post_result"

text \<open>The observable effects of a crawl: the pages requested and the sleeps, in order.\<close>

datatype event =
    Post nat
  | Sleep int

text \<open>The local variables of one invocation of \<^verbatim>\<open>crawl_data\<close>, together with the
  request counter and the event log, which survive a recursive call.\<close>

record crawl_state =
  all_data :: "json list"
  page :: nat
  total_count :: json
  empty_response_count :: nat
  retry_count :: int
  requests :: nat
  events :: "event list"

type_synonym unit_result = "json list \<times> json \<times> bool"

type_synonym outcome = "(py_error + unit_result) \<times> nat \<times> event list"

text \<open>How the body of the \<^verbatim>\<open>try\<close> block leaves: to the next iteration, by
  \<^verbatim>\<open>break\<close>, by an exception (the locals as they are when it is raised), or by the
  recursive call \<^verbatim>\<open>return crawl_data(..., retry_count + 1)\<close>.\<close>

datatype ctl =
    Next crawl_state
  | Break crawl_state
  | Raised crawl_state
  | Recurse crawl_state

text \<open>How one iteration of the \<^verbatim>\<open>while True\<close> loop leaves, the \<^verbatim>\<open>except\<close>
  clauses included. A recursive call made inside the \<^verbatim>\<open>try\<close> block is still guarded by
  the \<^verbatim>\<open>except\<close> clauses; one made inside an \<^verbatim>\<open>except\<close> clause is not.\<close>

datatype action =
    Continue crawl_state
  | Exit crawl_state
  | Call_in_try crawl_state
  | Call_in_handler crawl_state
  | Propagate py_error crawl_state

definition init_state :: "int \<Rightarrow> nat \<Rightarrow> crawl_state" where
  "init_state rc clock =
     \<lparr>all_data = [], page = 1, total_count = JNull, empty_response_count = 0,
      retry_count = rc, requests = clock, events = []\<rparr>"

text \<open>The locals of the invocation started by \<^verbatim>\<open>crawl_data(..., retry_count + 1)\<close>.\<close>

definition restart :: "crawl_state \<Rightarrow> crawl_state" where
  "restart st =
     \<lparr>all_data = [], page = 1, total_count = JNull, empty_response_count = 0,
      retry_count = retry_count st + 1, requests = requests st, events = events st\<rparr>"

definition with_world :: "nat \<times> event list \<Rightarrow> crawl_state \<Rightarrow> crawl_state" where
  "with_world w st = st\<lparr>requests := fst w, events := snd w\<rparr>"

definition has_api_key :: "config \<Rightarrow> bool" where
  "has_api_key cfg = (case api_key cfg of None \<Rightarrow> False | Some k \<Rightarrow> k \<noteq> [])"

definition posted :: "nat \<Rightarrow> crawl_state \<Rightarrow> crawl_state" where
  "posted p st = st\<lparr>requests := Suc (requests st), events := events st @ [Post p]\<rparr>"

definition slept :: "int \<Rightarrow> crawl_state \<Rightarrow> crawl_state" where
  "slept d st = st\<lparr>events := events st @ [Sleep d]\<rparr>"

text \<open>\<^verbatim>\<open>page += 1; time.sleep(1)\<close>.\<close>

definition advance :: "crawl_state \<Rightarrow> crawl_state" where
  "advance st = slept 1 (st\<lparr>page := page st + 1\<rparr>)"

text \<open>\<^verbatim>\<open>str.strip()\<close> removes the white space of \<^verbatim>\<open>str.isspace\<close> at both ends.\<close>

definition is_space :: "char \<Rightarrow> bool" where
  "is_space c =
     (let n = (of_char c :: nat)
      in (9 \<le> n \<and> n \<le> 13) \<or> (28 \<le> n \<and> n \<le> 32) \<or> n = 133 \<or> n = 160)"

definition py_strip :: "string \<Rightarrow> string" where
  "py_strip s = rev (dropWhile is_space (rev (dropWhile is_space s)))"

definition empty_text :: "string \<Rightarrow> bool" where
  "empty_text response_text = (response_text = ''{}'' \<or> length response_text < 5)"

text \<open>The retry of the status and decoding branches, inside the \<^verbatim>\<open>try\<close> block;
  \<^verbatim>\<open>time.sleep\<close> raises ValueError on a negative delay.\<close>

definition retry_in_try :: "config \<Rightarrow> crawl_state \<Rightarrow> ctl" where
  "retry_in_try cfg st =
     (if retry_count st < api_max_retries cfg
      then (if api_retry_delay cfg < 0 then Raised st
            else Recurse (slept (api_retry_delay cfg) st))
      else Break st)"

text \<open>The two \<^verbatim>\<open>except\<close> clauses (RequestException, Exception) have the same body.\<close>

definition on_exception :: "config \<Rightarrow> crawl_state \<Rightarrow> action" where
  "on_exception cfg st =
     (if retry_count st < api_max_retries cfg
      then (if api_retry_delay cfg < 0 then Propagate ValueError st
            else Call_in_handler (slept (api_retry_delay cfg) st))
      else Exit st)"

text \<open>The probe of the next page, written twice in the source (after the total is reached,
  and after a short page) with the same branches.\<close>

definition verify_next_page :: "config \<Rightarrow> server \<Rightarrow> crawl_state \<Rightarrow> ctl" where
  "verify_next_page cfg srv st =
     (let next_page = page st + 1 in
      if \<not> has_api_key cfg then Raised st
      else
        (case srv (requests st) next_page of
           RequestException \<Rightarrow> Raised (posted next_page st)
         | OtherException \<Rightarrow> Raised (posted next_page st)
         | Returns next_response \<Rightarrow>
             (let st1 = posted next_page st in
              if status_code next_response = 200 then
                if empty_text (py_strip (resp_text next_response)) then Break st1
                else
                  (case json_body next_response of
                     None \<Rightarrow> Break st1
                   | Some next_json \<Rightarrow>
                       (case is_empty_response next_json of
                          Inl e \<Rightarrow> Raised st1
                        | Inr True \<Rightarrow> Break st1
                        | Inr False \<Rightarrow> Next (st1\<lparr>page := next_page\<rparr>)))
              else Break st1)))"

text \<open>Lines 249 to 291: an empty page, a short page, or a full page.\<close>

definition page_size_check :: "config \<Rightarrow> server \<Rightarrow> json list \<Rightarrow> crawl_state \<Rightarrow> ctl" where
  "page_size_check cfg srv row_data st =
     (if row_data = [] then
        (let st1 = st\<lparr>empty_response_count := empty_response_count st + 1\<rparr> in
         if 2 \<le> empty_response_count st1 then Break st1 else Next (advance st1))
      else if int (length row_data) < api_max_records_per_request cfg then
        verify_next_page cfg srv st
      else Next (advance st))"

text \<open>Lines 201 to 247. The percentage is a Python float; it is computed here in exact
  rational arithmetic.\<close>

definition after_rows :: "config \<Rightarrow> server \<Rightarrow> json list \<Rightarrow> crawl_state \<Rightarrow> ctl" where
  "after_rows cfg srv row_data st =
     (if total_count st \<noteq> JNull then
        (case num_of (total_count st) of
           None \<Rightarrow> Raised st
         | Some expected \<Rightarrow>
             if expected = 0 then Raised st
             else
               (let collection_percentage =
                      (of_int (int (length (all_data st))) / of_int expected * 100 :: rat) in
                if expected \<le> int (length (all_data st)) then verify_next_page cfg srv st
                else if 995 / 10 < collection_percentage \<and> row_data = [] then Break st
                else page_size_check cfg srv row_data st))
      else page_size_check cfg srv row_data st)"

text \<open>Lines 181 to 186: on page 1, read the total from the \<^verbatim>\<open>head\<close> of the first
  element.\<close>

definition read_total :: "json \<Rightarrow> crawl_state \<Rightarrow> crawl_state \<times> py_error option" where
  "read_total response_json st =
     (if page st = 1 then
        (case py_getitem response_json ''QWGJK'' of
           Inl e \<Rightarrow> (st, Some e)
         | Inr v \<Rightarrow>
             (case py_first v of
                Inl e \<Rightarrow> (st, Some e)
              | Inr first \<Rightarrow>
                  (case py_get first ''head'' of
                     Inl e \<Rightarrow> (st, Some e)
                   | Inr head \<Rightarrow>
                       if truthy head then
                         (case py_iter head of
                            Inl e \<Rightarrow> (st, Some e)
                          | Inr metadata \<Rightarrow>
                              (st\<lparr>total_count := fst (scan_head (total_count st) metadata)\<rparr>,
                               snd (scan_head (total_count st) metadata)))
                       else (st, None))))
      else (st, None))"

text \<open>Lines 179 to 295, for a response that is not empty.\<close>

definition process_page :: "config \<Rightarrow> server \<Rightarrow> json \<Rightarrow> crawl_state \<Rightarrow> ctl" where
  "process_page cfg srv response_json st =
     (case py_in ''QWGJK'' response_json of
        Inl e \<Rightarrow> Raised st
      | Inr False \<Rightarrow> Break st
      | Inr True \<Rightarrow>
          (case snd (read_total response_json st) of
             Some e \<Rightarrow> Raised (fst (read_total response_json st))
           | None \<Rightarrow>
               (let st1 = fst (read_total response_json st) in
                case extract_rows response_json of
                  Inl e \<Rightarrow> Raised st1
                | Inr row_data \<Rightarrow>
                    after_rows cfg srv row_data
                      (if row_data \<noteq> [] then st1\<lparr>all_data := all_data st1 @ row_data\<rparr>
                       else st1\<lparr>empty_response_count := empty_response_count st1 + 1\<rparr>))))"

text \<open>Lines 116 to 176: the status code, the empty text, the decoding, the empty structure.\<close>

definition handle_response :: "config \<Rightarrow> server \<Rightarrow> response \<Rightarrow> crawl_state \<Rightarrow> ctl" where
  "handle_response cfg srv resp st =
     (if status_code resp = 300 then Break st
      else if status_code resp = 500 then retry_in_try cfg st
      else if status_code resp \<noteq> 200 then retry_in_try cfg st
      else if empty_text (py_strip (resp_text resp)) then
        (let st1 = st\<lparr>empty_response_count := empty_response_count st + 1\<rparr> in
         if 2 \<le> empty_response_count st1 then Break st1 else Next (advance st1))
      else
        (let st1 = st\<lparr>empty_response_count := 0\<rparr> in
         case json_body resp of
           None \<Rightarrow> retry_in_try cfg st1
         | Some response_json \<Rightarrow>
             (case is_empty_response response_json of
                Inl e \<Rightarrow> Raised st1
              | Inr True \<Rightarrow>
                  (let st2 = st1\<lparr>empty_response_count := empty_response_count st1 + 1\<rparr> in
                   if all_data st2 \<noteq> [] \<and> 1 \<le> empty_response_count st2 then Break st2
                   else Next (advance st2))
              | Inr False \<Rightarrow> process_page cfg srv response_json st1)))"

text \<open>The \<^verbatim>\<open>try\<close> block: \<^verbatim>\<open>get_request_params\<close> raises ValueError without an
  API key; then the request is sent.\<close>

definition try_body :: "config \<Rightarrow> server \<Rightarrow> crawl_state \<Rightarrow> ctl" where
  "try_body cfg srv st =
     (if \<not> has_api_key cfg then Raised st
      else
        (case srv (requests st) (page st) of
           RequestException \<Rightarrow> Raised (posted (page st) st)
         | OtherException \<Rightarrow> Raised (posted (page st) st)
         | Returns resp \<Rightarrow> handle_response cfg srv resp (posted (page st) st)))"

definition step :: "config \<Rightarrow> server \<Rightarrow> crawl_state \<Rightarrow> action" where
  "step cfg srv st =
     (case try_body cfg srv st of
        Next st' \<Rightarrow> Continue st'
      | Break st' \<Rightarrow> Exit st'
      | Raised st' \<Rightarrow> on_exception cfg st'
      | Recurse st' \<Rightarrow> Call_in_try st')"

text \<open>Lines 314 to 325, after the loop. The comparisons with the float
  \<^verbatim>\<open>total_count * 0.995\<close> and \<^verbatim>\<open>99.5\<close> are made in exact rational arithmetic, so
  the rounding of the floats and the OverflowError of the product for a total beyond the
  range of a float are not modelled;
  \<^verbatim>\<open>len(all_data) < total_count\<close> raises TypeError when the total is not a number.\<close>

definition finish :: "config \<Rightarrow> crawl_state \<Rightarrow> py_error + unit_result" where
  "finish cfg st =
     (let n = int (length (all_data st)) in
      if total_count st = JNull then Inr (all_data st, JNull, True)
      else
        (case num_of (total_count st) of
           None \<Rightarrow> Inl TypeError
         | Some expected \<Rightarrow>
             if n < expected \<and> (of_int n / of_int expected * 100 :: rat) < 995 / 10
                \<and> retry_count st < api_max_retries cfg
             then Inr (all_data st, total_count st, False)
             else Inr (all_data st, total_count st,
                       (if truthy (total_count st)
                        then (of_int expected * (995 / 1000) :: rat) \<le> of_int n
                        else True))))"

definition finished :: "config \<Rightarrow> crawl_state \<Rightarrow> outcome" where
  "finished cfg st = (finish cfg st, requests st, events st)"

text \<open>
  The loop and the recursion of \<^verbatim>\<open>crawl_data\<close>. The loop may run forever, so the
  result is an option. When a call made inside the \<^verbatim>\<open>try\<close> block raises, the
  \<^verbatim>\<open>except\<close> clause of the caller runs with the caller's locals; that clause sleeps
  and calls again, raises, or breaks, so the last two cases of the inner distinction never
  occur. The creation of the HTTP session is taken to succeed, the log messages are left
  out, and the depth of the Python call stack is not bounded.
\<close>

partial_function (option) crawl_loop :: "config \<Rightarrow> server \<Rightarrow> crawl_state \<Rightarrow> outcome option" where
  "crawl_loop cfg srv st =
     (case step cfg srv st of
        Continue st' \<Rightarrow> crawl_loop cfg srv st'
      | Exit st' \<Rightarrow> Some (finished cfg st')
      | Propagate e st' \<Rightarrow> Some (Inl e, requests st', events st')
      | Call_in_handler st' \<Rightarrow> crawl_loop cfg srv (restart st')
      | Call_in_try st' \<Rightarrow>
          Option.bind (crawl_loop cfg srv (restart st'))
            (\<lambda>r. case fst r of
                    Inr res \<Rightarrow> Some r
                  | Inl e \<Rightarrow>
                      (case on_exception cfg (with_world (snd r) st') of
                         Call_in_handler st'' \<Rightarrow> crawl_loop cfg srv (restart st'')
                       | Propagate e' st'' \<Rightarrow> Some (Inl e', requests st'', events st'')
                       | Exit st'' \<Rightarrow> Some (finished cfg st'')
                       | Continue st'' \<Rightarrow> None
                       | Call_in_try st'' \<Rightarrow> None)))"

definition crawl_data :: "config \<Rightarrow> server \<Rightarrow> nat \<Rightarrow> int \<Rightarrow> outcome option" where
  "crawl_data cfg srv clock rc = crawl_loop cfg srv (init_state rc clock)"

section \<open>Calendar and range expansion\<close>

type_synonym date = "int \<times> int \<times> int"

text \<open>\<^verbatim>\<open>calendar.isleap\<close> and \<^verbatim>\<open>calendar.monthrange(year, month)[1]\<close>.\<close>

definition isleap :: "int \<Rightarrow> bool" where
  "isleap year = (if year mod 4 = 0 then (if year mod 100 = 0 then year mod 400 = 0 else True) else False)"

definition mdays :: "int \<Rightarrow> int" where
  "mdays month =
     (if month = 2 then 28
      else if month = 4 then 30 else if month = 6 then 30
      else if month = 9 then 30 else if month = 11 then 30 else 31)"

definition monthrange_days :: "int \<Rightarrow> int \<Rightarrow> py_error + int" where
  "monthrange_days year month =
     (if 1 \<le> month \<and> month \<le> 12
      then Inr (mdays month + (if month = 2 \<and> isleap year then 1 else 0))
      else Inl ValueError)"

text \<open>\<^verbatim>\<open>datetime(year, month, day)\<close> accepts the years 1 to 9999.\<close>

definition get_last_day_of_month :: "int \<Rightarrow> int \<Rightarrow> py_error + date" where
  "get_last_day_of_month year month =
     (case monthrange_days year month of
        Inl e \<Rightarrow> Inl e
      | Inr last_day \<Rightarrow>
          if 1 \<le> year \<and> year \<le> 9999 then Inr (year, month, last_day) else Inl ValueError)"

text \<open>The two nested loops of \<^verbatim>\<open>main\<close> in month-end mode:
  \<^verbatim>\<open>for year in range(start_year, end_year + 1)\<close>, then
  \<^verbatim>\<open>for month in range(month_start, month_end + 1)\<close> with the month bounds of the
  first and last year.\<close>

definition month_start_of :: "int \<Rightarrow> int \<Rightarrow> int \<Rightarrow> int" where
  "month_start_of start_year start_month year = (if year = start_year then start_month else 1)"

definition month_end_of :: "int \<Rightarrow> int \<Rightarrow> int \<Rightarrow> int" where
  "month_end_of end_year end_month year = (if year = end_year then end_month else 12)"

definition month_end_units :: "int \<Rightarrow> int \<Rightarrow> int \<Rightarrow> int \<Rightarrow> (int \<times> int) list" where
  "month_end_units start_year end_year start_month end_month =
     concat (map (\<lambda>year.
        map (\<lambda>month. (year, month))
          [month_start_of start_year start_month year .. month_end_of end_year end_month year])
       [start_year .. end_year])"

text \<open>All-days mode for one year: \<^verbatim>\<open>datetime(year, month_start, 1)\<close> and
  \<^verbatim>\<open>calendar.monthrange(year, month_end)\<close> are evaluated first, then every day from
  the start date to the end date is visited.\<close>

definition days_in_month :: "int \<Rightarrow> int \<Rightarrow> int" where
  "days_in_month year month = mdays month + (if month = 2 \<and> isleap year then 1 else 0)"

text \<open>The dates that \<^verbatim>\<open>datetime.strptime(text, "%Y-%m-%d")\<close> can return; on any other
  text it raises ValueError.\<close>

definition valid_date :: "date \<Rightarrow> bool" where
  "valid_date d =
     (case d of (year, month, day) \<Rightarrow>
        1 \<le> year \<and> year \<le> 9999 \<and> 1 \<le> month \<and> month \<le> 12
        \<and> 1 \<le> day \<and> day \<le> days_in_month year month)"

definition all_days_of_year :: "int \<Rightarrow> int \<Rightarrow> int \<Rightarrow> (int \<times> (py_error + date)) list" where
  "all_days_of_year year month_start month_end =
     (if 1 \<le> year \<and> year \<le> 9999 \<and> 1 \<le> month_start \<and> month_start \<le> 12 then
        (case monthrange_days year month_end of
           Inl e \<Rightarrow> [(year, Inl e)]
         | Inr last_day \<Rightarrow>
             concat (map (\<lambda>month.
                map (\<lambda>day. (year, Inr (year, month, day))) [1 .. days_in_month year month])
               [month_start .. month_end]))
      else [(year, Inl ValueError)])"

section \<open>The incomplete-work ledger and the orchestrator\<close>

text \<open>
  An entry of \<^verbatim>\<open>data/incomplete_dates.json\<close>. The date is kept as a calendar date
  instead of its \<^verbatim>\<open>%Y-%m-%d\<close> text, the wall-clock field \<^verbatim>\<open>last_attempt\<close> is left
  out, and \<^verbatim>\<open>previous_attempts\<close> is absent from the entries written by a range scan.
  The ledger file is \<open>None\<close> while it does not exist.
\<close>

record incomplete_record =
  ir_date :: date
  ir_year :: int
  ir_expected :: json
  ir_collected :: nat
  ir_previous_attempts :: "int option"

type_synonym ledger_file = "incomplete_record list option"

definition load_incomplete_dates :: "ledger_file \<Rightarrow> incomplete_record list" where
  "load_incomplete_dates file = (case file of None \<Rightarrow> [] | Some records \<Rightarrow> records)"

definition save_incomplete_dates :: "incomplete_record list \<Rightarrow> ledger_file" where
  "save_incomplete_dates incomplete_dates = Some incomplete_dates"

text \<open>The line written to the count log for every unit.\<close>

datatype status = SUCCESS | INCOMPLETE | NO_DATA

record log_line =
  log_date :: date
  log_year :: int
  log_expected :: json
  log_collected :: nat
  log_status :: status

definition count_line :: "date \<Rightarrow> int \<Rightarrow> unit_result \<Rightarrow> log_line" where
  "count_line d year res =
     (case res of (data, expected, is_complete) \<Rightarrow>
        \<lparr>log_date = d, log_year = year, log_expected = expected, log_collected = length data,
         log_status = (if is_complete then SUCCESS
                       else if truthy expected then INCOMPLETE else NO_DATA)\<rparr>)"

text \<open>The three places of \<^verbatim>\<open>main\<close> that append to \<^verbatim>\<open>new_incomplete_dates\<close>:
  the range scan (both the all-days and the month-end loop), the single date, the retry.\<close>

definition record_range ::
  "date \<Rightarrow> int \<Rightarrow> unit_result \<Rightarrow> incomplete_record list \<Rightarrow> incomplete_record list" where
  "record_range d year res new_incomplete_dates =
     (case res of (data, expected, is_complete) \<Rightarrow>
        if \<not> is_complete \<and> expected \<noteq> JNull \<and> 0 < length data
        then new_incomplete_dates @
               [\<lparr>ir_date = d, ir_year = year, ir_expected = expected,
                 ir_collected = length data, ir_previous_attempts = None\<rparr>]
        else new_incomplete_dates)"

definition record_date ::
  "date \<Rightarrow> int \<Rightarrow> unit_result \<Rightarrow> incomplete_record list \<Rightarrow> incomplete_record list" where
  "record_date d year res new_incomplete_dates =
     (case res of (data, expected, is_complete) \<Rightarrow>
        if \<not> is_complete
        then new_incomplete_dates @
               [\<lparr>ir_date = d, ir_year = year, ir_expected = expected,
                 ir_collected = length data, ir_previous_attempts = None\<rparr>]
        else new_incomplete_dates)"

definition record_retry ::
  "incomplete_record \<Rightarrow> unit_result \<Rightarrow> incomplete_record list \<Rightarrow> incomplete_record list" where
  "record_retry item res new_incomplete_dates =
     (case res of (data, expected, is_complete) \<Rightarrow>
        if \<not> is_complete
        then new_incomplete_dates @
               [\<lparr>ir_date = ir_date item, ir_year = ir_year item, ir_expected = expected,
                 ir_collected = length data,
                 ir_previous_attempts =
                   Some ((case ir_previous_attempts item of None \<Rightarrow> 0 | Some k \<Rightarrow> k) + 1)\<rparr>]
        else new_incomplete_dates)"

text \<open>
  The API answers a request for a fiscal year, an execution date and a page; the request
  counter runs through the whole run. The snapshot files, the summaries and the table
  store do not touch the ledger; they are left out and their writes are taken to succeed.
\<close>

type_synonym world_server = "nat \<Rightarrow> int \<Rightarrow> date \<Rightarrow> nat \<Rightarrow> post_result"

definition unit_server :: "world_server \<Rightarrow> int \<Rightarrow> date \<Rightarrow> server" where
  "unit_server world year d = (\<lambda>i p. world i year d p)"

record run_state =
  clock :: nat
  new_incomplete_dates :: "incomplete_record list"
  count_log :: "log_line list"

text \<open>The retry loop, \<^verbatim>\<open>for item in incomplete_dates\<close>. The stored date is parsed
  first; an exception of the parser or of \<^verbatim>\<open>crawl_data\<close> leaves \<^verbatim>\<open>main\<close>.\<close>

fun retry_loop ::
  "config \<Rightarrow> world_server \<Rightarrow> incomplete_record list \<Rightarrow> run_state \<Rightarrow> (py_error option \<times> run_state) option"
where
  "retry_loop cfg world [] rs = Some (None, rs)"
| "retry_loop cfg world (item # rest) rs =
     (if \<not> valid_date (ir_date item) then Some (Some ValueError, rs)
      else
        (case crawl_data cfg (unit_server world (ir_year item) (ir_date item)) (clock rs) 0 of
           None \<Rightarrow> None
         | Some r \<Rightarrow>
             (case fst r of
                Inl e \<Rightarrow> Some (Some e, rs\<lparr>clock := fst (snd r)\<rparr>)
              | Inr res \<Rightarrow>
                  retry_loop cfg world rest
                    \<lparr>clock = fst (snd r),
                     new_incomplete_dates = record_retry item res (new_incomplete_dates rs),
                     count_log =
                       count_log rs @ [count_line (ir_date item) (ir_year item) res]\<rparr>)))"

text \<open>The range scan over the units in order; a unit whose date cannot be built raises.\<close>

fun scan_units ::
  "config \<Rightarrow> world_server \<Rightarrow> (int \<times> (py_error + date)) list \<Rightarrow> run_state \<Rightarrow> (py_error option \<times> run_state) option"
where
  "scan_units cfg world [] rs = Some (None, rs)"
| "scan_units cfg world (u # rest) rs =
     (case snd u of
        Inl e \<Rightarrow> Some (Some e, rs)
      | Inr current_date \<Rightarrow>
          (case crawl_data cfg (unit_server world (fst u) current_date) (clock rs) 0 of
             None \<Rightarrow> None
           | Some r \<Rightarrow>
               (case fst r of
                  Inl e \<Rightarrow> Some (Some e, rs\<lparr>clock := fst (snd r)\<rparr>)
                | Inr res \<Rightarrow>
                    scan_units cfg world rest
                      \<lparr>clock = fst (snd r),
                       new_incomplete_dates =
                         record_range current_date (fst u) res (new_incomplete_dates rs),
                       count_log = count_log rs @ [count_line current_date (fst u) res]\<rparr>)))"

text \<open>The command line; a year or month that is absent or 0 takes its default.\<close>

record args =
  arg_start_year :: "int option"
  arg_end_year :: "int option"
  arg_start_month :: "int option"
  arg_end_month :: "int option"
  arg_date :: "date option"
  arg_retry_incomplete :: bool
  arg_all_days :: bool

definition arg_or :: "int option \<Rightarrow> int \<Rightarrow> int" where
  "arg_or a d = (case a of None \<Rightarrow> d | Some v \<Rightarrow> if v = 0 then d else v)"

definition planned_units :: "config \<Rightarrow> args \<Rightarrow> (int \<times> (py_error + date)) list" where
  "planned_units cfg a =
     (let start_year = arg_or (arg_start_year a) (data_start_year cfg);
          end_year = arg_or (arg_end_year a) (data_end_year cfg);
          start_month = arg_or (arg_start_month a) 1;
          end_month = arg_or (arg_end_month a) 12
      in if arg_all_days a then
           concat (map (\<lambda>year.
              all_days_of_year year (month_start_of start_year start_month year)
                (month_end_of end_year end_month year))
             [start_year .. end_year])
         else
           map (\<lambda>u. (fst u, get_last_day_of_month (fst u) (snd u)))
             (month_end_units start_year end_year start_month end_month))"

text \<open>After the loop over the years, \<^verbatim>\<open>main\<close> reads \<^verbatim>\<open>month_start\<close>, which is
  assigned inside the loop only: an empty range of years raises UnboundLocalError there.\<close>

definition year_range_empty :: "config \<Rightarrow> args \<Rightarrow> bool" where
  "year_range_empty cfg a =
     (arg_or (arg_end_year a) (data_end_year cfg) < arg_or (arg_start_year a) (data_start_year cfg))"

text \<open>
  \<^verbatim>\<open>main\<close>, as far as the ledger goes: the ledger file after the run, the exception that
  ended the run if any, and the run state. The single-date mode ends in
  \<^verbatim>\<open>finally: sys.exit(0)\<close>, whether the date was parsed and crawled or not, and never
  writes the ledger; the retry mode with an empty ledger falls through to the range scan; the
  range scan writes the ledger only when \<^verbatim>\<open>new_incomplete_dates\<close> is not empty.
\<close>

definition main ::
  "config \<Rightarrow> world_server \<Rightarrow> args \<Rightarrow> ledger_file \<Rightarrow> nat \<Rightarrow> (py_error option \<times> ledger_file \<times> run_state) option"
where
  "main cfg world a file start =
     (let incomplete_dates = load_incomplete_dates file;
          rs0 = \<lparr>clock = start, new_incomplete_dates = [], count_log = []\<rparr>
      in if \<not> has_api_key cfg then Some (Some ValueError, file, rs0)
         else
           (case arg_date a of
              Some specific_date \<Rightarrow>
                if \<not> valid_date specific_date then Some (None, file, rs0)
                else
                  (case crawl_data cfg (unit_server world (fst specific_date) specific_date)
                          start 0 of
                     None \<Rightarrow> None
                   | Some r \<Rightarrow>
                       (case fst r of
                          Inl e \<Rightarrow> Some (None, file, rs0\<lparr>clock := fst (snd r)\<rparr>)
                        | Inr res \<Rightarrow>
                            Some (None, file,
                              \<lparr>clock = fst (snd r),
                               new_incomplete_dates =
                                 record_date specific_date (fst specific_date) res [],
                               count_log =
                                 [count_line specific_date (fst specific_date) res]\<rparr>)))
            | None \<Rightarrow>
                if arg_retry_incomplete a \<and> incomplete_dates \<noteq> [] then
                  (case retry_loop cfg world incomplete_dates rs0 of
                     None \<Rightarrow> None
                   | Some out \<Rightarrow>
                       (case fst out of
                          Some e \<Rightarrow> Some (Some e, file, snd out)
                        | None \<Rightarrow>
                            Some (None, save_incomplete_dates (new_incomplete_dates (snd out)),
                                  snd out)))
                else
                  (case scan_units cfg world (planned_units cfg a) rs0 of
                     None \<Rightarrow> None
                   | Some out \<Rightarrow>
                       (case fst out of
                          Some e \<Rightarrow> Some (Some e, file, snd out)
                        | None \<Rightarrow>
                            if year_range_empty cfg a
                            then Some (Some UnboundLocalError, file, snd out)
                            else
                              Some (None,
                                    (if new_incomplete_dates (snd out) \<noteq> []
                                     then save_incomplete_dates (new_incomplete_dates (snd out))
                                     else file),
                                    snd out)))))"

section \<open>Notions used in the statements\<close>

text \<open>The failures after which the crawler retries: an exception of the request, a status
  other than 200 and 300 (500 among them), or a body that is not empty and does not decode.\<close>

definition retryable_failure :: "post_result \<Rightarrow> bool" where
  "retryable_failure r =
     (case r of
        RequestException \<Rightarrow> True
      | OtherException \<Rightarrow> True
      | Returns resp \<Rightarrow>
          (if status_code resp = 300 then False
           else if status_code resp = 200
             then (if empty_text (py_strip (resp_text resp)) then False
                   else json_body resp = None)
           else True))"

text \<open>The answers to a verification fetch that the crawler takes as the end of the unit without
  looking at rows: a status other than 200, or a body that is not empty and does not decode.\<close>

definition probe_failure :: "response \<Rightarrow> bool" where
  "probe_failure v =
     (if status_code v = 200
      then (if empty_text (py_strip (resp_text v)) then False else json_body v = None)
      else True)"

text \<open>The locals after a non-empty page has been received: the request is counted, the counter
  of empty responses is reset and, on page 1, the total is read.\<close>

definition page_state :: "json \<Rightarrow> crawl_state \<Rightarrow> crawl_state" where
  "page_state response_json st =
     fst (read_total response_json ((posted (page st) st)\<lparr>empty_response_count := 0\<rparr>))"

text \<open>What the retry run keeps of a ledger entry, given the count-log line of its new crawl: nothing
  if the unit is now complete, otherwise the entry with the new figures and one more attempt.\<close>

definition still_incomplete :: "incomplete_record \<Rightarrow> log_line \<Rightarrow> incomplete_record list" where
  "still_incomplete item l =
     (if log_status l = SUCCESS then []
      else [\<lparr>ir_date = ir_date item, ir_year = ir_year item, ir_expected = log_expected l,
             ir_collected = log_collected l,
             ir_previous_attempts =
               Some ((case ir_previous_attempts item of None \<Rightarrow> 0 | Some k \<Rightarrow> k) + 1)\<rparr>])"

text \<open>The count-log lines of the units that are not complete.\<close>

definition not_success :: "log_line list \<Rightarrow> log_line list" where
  "not_success ls = filter (\<lambda>l. log_status l \<noteq> SUCCESS) ls"

text \<open>An entry made by a range scan: it has rows, a known total, and a count-log line of the
  same date and row count that does not say SUCCESS.\<close>

definition range_entry_ok :: "log_line list \<Rightarrow> incomplete_record \<Rightarrow> bool" where
  "range_entry_ok ls r =
     (0 < ir_collected r \<and> ir_expected r \<noteq> JNull
      \<and> list_ex (\<lambda>l. log_status l \<noteq> SUCCESS \<and> log_date l = ir_date r
                    \<and> log_collected l = ir_collected r) ls)"

section \<open>Sample configuration, pages, servers and arguments\<close>

text \<open>The defaults of \<^verbatim>\<open>config.py\<close>, with an API key set.\<close>

definition default_config :: config where
  "default_config =
     \<lparr>api_key = Some ''key'', api_max_records_per_request = 1000, api_max_retries = 3,
      api_retry_delay = 5, data_start_year = 2016, data_end_year = 2024\<rparr>"

text \<open>Pages in the format of the API: a \<^verbatim>\<open>head\<close> element with the total and a
  \<^verbatim>\<open>row\<close> element; a page of rows only; a page whose last element is null. Each
  text is the JSON text of the page next to it.\<close>

definition sample_row :: "int \<Rightarrow> json" where
  "sample_row k = JDict [(''exe_ymd'', JStr ''20230131''), (''ep_amt'', JInt k)]"

definition data_page :: "int \<Rightarrow> json list \<Rightarrow> json" where
  "data_page n rows =
     JDict [(''QWGJK'',
        JList [JDict [(''head'', JList [JDict [(''list_total_count'', JInt n)]])],
               JDict [(''row'', JList rows)]])]"

definition rows_page :: "json list \<Rightarrow> json" where
  "rows_page rows = JDict [(''QWGJK'', JList [JDict [(''row'', JList rows)]])]"

definition null_tail_page :: json where
  "null_tail_page =
     JDict [(''QWGJK'',
        JList [JDict [(''head'', JList [JDict [(''list_total_count'', JInt 100)]])],
               JDict [(''row'', JList [sample_row 1])],
               JNull])]"

definition page_text :: string where
  \<open>page_text = ''{"QWGJK":[{"head":[{"list_total_count":2}]},{"row":[{"exe_ymd":"20230131","ep_amt":1},{"exe_ymd":"20230131","ep_amt":2}]}]}''\<close>

definition more_text :: string where
  \<open>more_text = ''{"QWGJK":[{"row":[{"exe_ymd":"20230131","ep_amt":3}]}]}''\<close>

definition short_text :: string where
  \<open>short_text = ''{"QWGJK":[{"head":[{"list_total_count":100}]},{"row":[{"exe_ymd":"20230131","ep_amt":1},{"exe_ymd":"20230131","ep_amt":2}]}]}''\<close>

definition null_tail_text :: string where
  \<open>null_tail_text = ''{"QWGJK":[{"head":[{"list_total_count":100}]},{"row":[{"exe_ymd":"20230131","ep_amt":1}]},null]}''\<close>

definition zero_text :: string where
  \<open>zero_text = ''{"QWGJK":[{"head":[{"list_total_count":0}]},{"row":[{"exe_ymd":"20230131","ep_amt":1},{"exe_ymd":"20230131","ep_amt":2}]}]}''\<close>

definition braces_response :: response where
  "braces_response = \<lparr>status_code = 200, resp_text = ''{}'', json_body = Some (JDict [])\<rparr>"

definition empty_structure_response :: response where
  \<open>empty_structure_response =
     \<lparr>status_code = 200, resp_text = ''{"QWGJK":[]}'',
      json_body = Some (JDict [(''QWGJK'', JList [])])\<rparr>\<close>

text \<open>Servers. They answer by page only: a unit of two rows announced as two; the same unit
  with a third row on page 2; two rows announced as a hundred; pages without rows; a page
  with a null element; status 300; exceptions; one exception on the second request.\<close>

definition complete_server :: server where
  "complete_server =
     (\<lambda>i p. if p = 1
            then Returns \<lparr>status_code = 200, resp_text = page_text,
                           json_body = Some (data_page 2 [sample_row 1, sample_row 2])\<rparr>
            else Returns braces_response)"

definition growing_server :: server where
  "growing_server =
     (\<lambda>i p. if p = 1
            then Returns \<lparr>status_code = 200, resp_text = page_text,
                           json_body = Some (data_page 2 [sample_row 1, sample_row 2])\<rparr>
            else if p = 2
            then Returns \<lparr>status_code = 200, resp_text = more_text,
                           json_body = Some (rows_page [sample_row 3])\<rparr>
            else Returns braces_response)"

definition short_server :: server where
  "short_server =
     (\<lambda>i p. if p = 1
            then Returns \<lparr>status_code = 200, resp_text = short_text,
                           json_body = Some (data_page 100 [sample_row 1, sample_row 2])\<rparr>
            else Returns braces_response)"

definition empty_structure_server :: server where
  "empty_structure_server = (\<lambda>i p. Returns empty_structure_response)"

definition null_tail_server :: server where
  "null_tail_server =
     (\<lambda>i p. Returns \<lparr>status_code = 200, resp_text = null_tail_text,
                        json_body = Some null_tail_page\<rparr>)"

definition status_300_server :: server where
  "status_300_server = (\<lambda>i p. Returns \<lparr>status_code = 300, resp_text = [], json_body = None\<rparr>)"

definition failing_server :: server where
  "failing_server = (\<lambda>i p. RequestException)"

definition flaky_server :: server where
  "flaky_server =
     (\<lambda>i p. if i = 1 then RequestException
            else Returns \<lparr>status_code = 300, resp_text = [], json_body = None\<rparr>)"

text \<open>More servers: a total of 0 announced with two rows; a third row that only the
  verification fetch gets to see; status 500 on every page after the first.\<close>

definition zero_total_server :: server where
  "zero_total_server =
     (\<lambda>i p. Returns \<lparr>status_code = 200, resp_text = zero_text,
                        json_body = Some (data_page 0 [sample_row 1, sample_row 2])\<rparr>)"

definition dropping_server :: server where
  "dropping_server =
     (\<lambda>i p. if p = 1
            then Returns \<lparr>status_code = 200, resp_text = page_text,
                           json_body = Some (data_page 2 [sample_row 1, sample_row 2])\<rparr>
            else if p = 2 \<and> i = 1
            then Returns \<lparr>status_code = 200, resp_text = more_text,
                           json_body = Some (rows_page [sample_row 3])\<rparr>
            else Returns braces_response)"

definition probe_500_server :: server where
  "probe_500_server =
     (\<lambda>i p. if p = 1
            then Returns \<lparr>status_code = 200, resp_text = page_text,
                           json_body = Some (data_page 2 [sample_row 1, sample_row 2])\<rparr>
            else Returns \<lparr>status_code = 500, resp_text = [], json_body = None\<rparr>)"

definition constant_world :: "server \<Rightarrow> world_server" where
  "constant_world srv = (\<lambda>i year d. srv i)"

text \<open>A crawl that stands at page 2 with one row collected.\<close>

definition second_page_state :: "int \<Rightarrow> crawl_state" where
  "second_page_state rc =
     \<lparr>all_data = [sample_row 1], page = 2, total_count = JNull, empty_response_count = 0,
      retry_count = rc, requests = 1, events = [Post 1, Sleep 1]\<rparr>"

text \<open>Command lines, a ledger with one entry for 2023-01-31, and the count-log lines and ledger
  entries of that date.\<close>

definition month_end_args_2023 :: args where
  "month_end_args_2023 =
     \<lparr>arg_start_year = Some 2023, arg_end_year = Some 2023, arg_start_month = None,
      arg_end_month = None, arg_date = None, arg_retry_incomplete = False,
      arg_all_days = False\<rparr>"

definition january_args :: args where
  "january_args =
     \<lparr>arg_start_year = Some 2023, arg_end_year = Some 2023, arg_start_month = Some 1,
      arg_end_month = Some 1, arg_date = None, arg_retry_incomplete = False,
      arg_all_days = False\<rparr>"

definition retry_args :: args where
  "retry_args =
     \<lparr>arg_start_year = None, arg_end_year = None, arg_start_month = None,
      arg_end_month = None, arg_date = None, arg_retry_incomplete = True,
      arg_all_days = False\<rparr>"

definition date_args :: args where
  "date_args =
     \<lparr>arg_start_year = None, arg_end_year = None, arg_start_month = None,
      arg_end_month = None, arg_date = Some (2023, 1, 31), arg_retry_incomplete = False,
      arg_all_days = False\<rparr>"

definition stale_ledger :: ledger_file where
  "stale_ledger =
     Some [\<lparr>ir_date = (2023, 1, 31), ir_year = 2023, ir_expected = JInt 100,
            ir_collected = 40, ir_previous_attempts = None\<rparr>]"

definition january_line :: "json \<Rightarrow> nat \<Rightarrow> status \<Rightarrow> log_line" where
  "january_line expected collected st =
     \<lparr>log_date = (2023, 1, 31), log_year = 2023, log_expected = expected,
      log_collected = collected, log_status = st\<rparr>"

definition january_entry :: "nat \<Rightarrow> int option \<Rightarrow> incomplete_record" where
  "january_entry collected attempts =
     \<lparr>ir_date = (2023, 1, 31), ir_year = 2023, ir_expected = JInt 100,
      ir_collected = collected, ir_previous_attempts = attempts\<rparr>"

section \<open>Properties of the response classifier\<close>

lemma all_rows_missing_False:
  "all_rows_missing items = Inr False \<Longrightarrow>
     \<exists>item \<in> set items. \<exists>fields r. item = JDict fields \<and> map_of fields ''row'' = Some r \<and> truthy r"
proof (induction items)
  case Nil
  then show ?case by simp
next
  case (Cons item rest)
  show ?case
  proof (cases "py_in ''row'' item")
    case (Inl e)
    with Cons.prems show ?thesis by simp
  next
    case (Inr b)
    show ?thesis
    proof (cases b)
      case False
      with Inr Cons show ?thesis by simp
    next
      case True
      show ?thesis
      proof (cases item)
        case (JDict fields)
        with Inr True Cons show ?thesis
          by (cases "map_of fields ''row''") (auto split: if_splits)
      qed (use Inr True Cons.prems in auto)
    qed
  qed
qed

lemma extend_rows_accumulates:
  "extend_rows row_data items = Inr rows \<Longrightarrow> length row_data \<le> length rows"
proof (induction items arbitrary: row_data)
  case Nil
  then show ?case by simp
next
  case (Cons item rest)
  show ?case
  proof (cases "py_in ''row'' item")
    case (Inl e)
    with Cons.prems show ?thesis by simp
  next
    case (Inr b)
    show ?thesis
    proof (cases b)
      case False
      with Inr Cons show ?thesis by simp
    next
      case True
      with Inr Cons.prems obtain r xs where
        r: "py_getitem item ''row'' = Inr r" and xs: "py_iter r = Inr xs"
        and rest: "extend_rows (row_data @ xs) rest = Inr rows"
        by (auto split: sum.splits)
      from Cons.IH [OF rest] show ?thesis by simp
    qed
  qed
qed

lemma py_iter_truthy: "truthy r \<Longrightarrow> py_iter r = Inr xs \<Longrightarrow> xs \<noteq> []"
  by (cases r) auto

lemma extend_rows_populated:
  assumes "\<exists>item \<in> set items. \<exists>fields r. item = JDict fields \<and> map_of fields ''row'' = Some r \<and> truthy r"
    and "extend_rows row_data items = Inr rows"
  shows "rows \<noteq> []"
  using assms
proof (induction items arbitrary: row_data)
  case Nil
  then show ?case by simp
next
  case (Cons item rest)
  show ?case
  proof (cases "py_in ''row'' item")
    case (Inl e)
    with Cons.prems show ?thesis by simp
  next
    case (Inr b)
    show ?thesis
    proof (cases b)
      case False
      with Inr Cons.prems have "extend_rows row_data rest = Inr rows" by simp
      moreover from False Inr Cons.prems(1)
      have "\<exists>item \<in> set rest. \<exists>fields r. item = JDict fields \<and> map_of fields ''row'' = Some r \<and> truthy r"
        by auto
      ultimately show ?thesis using Cons.IH by blast
    next
      case True
      with Inr Cons.prems obtain r xs where
        r: "py_getitem item ''row'' = Inr r" and xs: "py_iter r = Inr xs"
        and rest: "extend_rows (row_data @ xs) rest = Inr rows"
        by (auto split: sum.splits)
      show ?thesis
      proof (cases "truthy r")
        case True
        then have "xs \<noteq> []" using xs by (rule py_iter_truthy)
        with extend_rows_accumulates [OF rest] show ?thesis by auto
      next
        case False
        with r Cons.prems(1)
        have "\<exists>item \<in> set rest. \<exists>fields r. item = JDict fields \<and> map_of fields ''row'' = Some r \<and> truthy r"
          by (cases item) (auto split: option.splits)
        with rest Cons.IH show ?thesis by blast
      qed
    qed
  qed
qed

lemma nonempty_response_shape:
  assumes "is_empty_response response_json = Inr False"
    and "py_in ''QWGJK'' response_json = Inr True"
  shows "\<exists>kvs items. response_json = JDict kvs \<and> map_of kvs ''QWGJK'' = Some (JList items)
           \<and> items \<noteq> [] \<and> all_rows_missing items = Inr False"
proof -
  from assms obtain v where v: "py_getitem response_json ''QWGJK'' = Inr v"
    by (auto simp: is_empty_response_def split: if_splits sum.splits)
  then obtain kvs where kvs: "response_json = JDict kvs" "map_of kvs ''QWGJK'' = Some v"
    by (cases response_json) (auto split: option.splits)
  from assms v obtain items where
    items: "truthy v" "py_iter v = Inr items" "all_rows_missing items = Inr False"
    by (auto simp: is_empty_response_def split: if_splits sum.splits bool.splits)
  have "v = JList items"
  proof (cases v)
    case (JList xs)
    with items show ?thesis by simp
  next
    case (JDict fs)
    have "all_rows_missing (map (\<lambda>kv. JStr (fst kv)) fs) \<noteq> Inr False"
      by (induction fs) (auto split: sum.splits bool.splits)
    with items JDict show ?thesis by simp
  next
    case (JStr s)
    have "all_rows_missing (map (\<lambda>c. JStr [c]) s) \<noteq> Inr False"
      by (induction s) (auto split: sum.splits bool.splits)
    with items JStr show ?thesis by simp
  qed (use items in auto)
  moreover from this items have "items \<noteq> []" by auto
  ultimately show ?thesis using kvs items by blast
qed

lemma valid_page_rows:
  assumes "is_empty_response j = Inr False" and "py_in ''QWGJK'' j = Inr True"
    and "extract_rows j = Inr rows"
  shows "rows \<noteq> []"
proof -
  from nonempty_response_shape [OF assms(1,2)] obtain kvs items where
    shape: "j = JDict kvs" "map_of kvs ''QWGJK'' = Some (JList items)"
      "all_rows_missing items = Inr False"
    by blast
  from assms(3) shape have "extend_rows [] items = Inr rows" by (simp add: extract_rows_def)
  with all_rows_missing_False [OF shape(3)] show ?thesis by (rule extend_rows_populated)
qed

text \<open>
  C10: when \<^verbatim>\<open>is_empty_response\<close> returns false on a parsed response that contains the
  key \<^verbatim>\<open>QWGJK\<close>, the response is a dict whose \<^verbatim>\<open>QWGJK\<close> value is a list
  with at least one element that has a truthy \<^verbatim>\<open>row\<close> value; so the access to its
  first element on page 1 succeeds, and the row list extracted from the response is never empty:
  the branches of the crawler for a valid response without rows are not reached.
\<close>

theorem nonempty_response_has_rows:
  assumes "is_empty_response response_json = Inr False"
    and "py_in ''QWGJK'' response_json = Inr True"
  shows "\<exists>kvs items. response_json = JDict kvs \<and> map_of kvs ''QWGJK'' = Some (JList items)
           \<and> (\<exists>item \<in> set items. \<exists>fields r.
                 item = JDict fields \<and> map_of fields ''row'' = Some r \<and> truthy r)
           \<and> py_first (JList items) = Inr (hd items)
           \<and> (\<forall>rows. extract_rows response_json = Inr rows \<longrightarrow> rows \<noteq> [])"
proof -
  from nonempty_response_shape [OF assms] obtain kvs items where
    shape: "response_json = JDict kvs" "map_of kvs ''QWGJK'' = Some (JList items)"
      "items \<noteq> []" "all_rows_missing items = Inr False"
    by blast
  from all_rows_missing_False [OF shape(4)]
  have populated: "\<exists>item \<in> set items. \<exists>fields r.
      item = JDict fields \<and> map_of fields ''row'' = Some r \<and> truthy r" .
  have first: "py_first (JList items) = Inr (hd items)"
    using shape(3) by (cases items) auto
  have "rows \<noteq> []" if "extract_rows response_json = Inr rows" for rows
  proof -
    from that shape have "extend_rows [] items = Inr rows"
      by (simp add: extract_rows_def)
    with populated show ?thesis by (rule extend_rows_populated)
  qed
  with shape populated first show ?thesis by blast
qed

theorem nonempty_response_has_rows_witness:
  "is_empty_response (data_page 2 [sample_row 1, sample_row 2]) = Inr False
   \<and> py_in ''QWGJK'' (data_page 2 [sample_row 1, sample_row 2]) = Inr True
   \<and> extract_rows (data_page 2 [sample_row 1, sample_row 2]) = Inr [sample_row 1, sample_row 2]"
proof -
  have a: "is_empty_response (data_page 2 [sample_row 1, sample_row 2]) = Inr False"
    by (simp add: is_empty_response_def data_page_def)
  have b: "py_in ''QWGJK'' (data_page 2 [sample_row 1, sample_row 2]) = Inr True"
    by (simp add: data_page_def)
  have c: "extract_rows (data_page 2 [sample_row 1, sample_row 2]) = Inr [sample_row 1, sample_row 2]"
    by (simp add: extract_rows_def data_page_def)
  from nonempty_response_has_rows [OF a b] a b c show ?thesis by blast
qed

section \<open>The range expansion\<close>

lemma month_end_units_2023:
  "month_end_units 2023 2023 1 12 =
     [(2023, 1), (2023, 2), (2023, 3), (2023, 4), (2023, 5), (2023, 6),
      (2023, 7), (2023, 8), (2023, 9), (2023, 10), (2023, 11), (2023, 12)]"
  by code_simp

lemma last_days_2023:
  "map (\<lambda>u. (fst u, get_last_day_of_month (fst u) (snd u)))
     [(2023, 1), (2023, 2), (2023, 3), (2023, 4), (2023, 5), (2023, 6),
      (2023, 7), (2023, 8), (2023, 9), (2023, 10), (2023, 11), (2023, 12)] =
   [(2023, Inr (2023, 1, 31)), (2023, Inr (2023, 2, 28)), (2023, Inr (2023, 3, 31)),
    (2023, Inr (2023, 4, 30)), (2023, Inr (2023, 5, 31)), (2023, Inr (2023, 6, 30)),
    (2023, Inr (2023, 7, 31)), (2023, Inr (2023, 8, 31)), (2023, Inr (2023, 9, 30)),
    (2023, Inr (2023, 10, 31)), (2023, Inr (2023, 11, 30)), (2023, Inr (2023, 12, 31))]"
  by (simp add: get_last_day_of_month_def monthrange_days_def mdays_def isleap_def)

text \<open>
  C9: a run with start year 2023, end year 2023, default months and month-end mode expands
  into exactly 12 units, one per month of 2023, each dated the last calendar day of its
  month; the expansion is the same for every configuration and every other argument.
\<close>

theorem month_end_scan_2023:
  assumes "arg_start_year a = Some 2023" and "arg_end_year a = Some 2023"
    and "arg_start_month a = None" and "arg_end_month a = None" and "\<not> arg_all_days a"
  shows "planned_units cfg a =
   [(2023, Inr (2023, 1, 31)), (2023, Inr (2023, 2, 28)), (2023, Inr (2023, 3, 31)),
    (2023, Inr (2023, 4, 30)), (2023, Inr (2023, 5, 31)), (2023, Inr (2023, 6, 30)),
    (2023, Inr (2023, 7, 31)), (2023, Inr (2023, 8, 31)), (2023, Inr (2023, 9, 30)),
    (2023, Inr (2023, 10, 31)), (2023, Inr (2023, 11, 30)), (2023, Inr (2023, 12, 31))]
   \<and> length (planned_units cfg a) = 12"
proof -
  have "planned_units cfg a =
      map (\<lambda>u. (fst u, get_last_day_of_month (fst u) (snd u))) (month_end_units 2023 2023 1 12)"
    using assms by (simp add: planned_units_def arg_or_def)
  then show ?thesis
    by (simp only: month_end_units_2023 last_days_2023) simp
qed

theorem month_end_scan_2023_witness:
  "planned_units default_config month_end_args_2023 =
   [(2023, Inr (2023, 1, 31)), (2023, Inr (2023, 2, 28)), (2023, Inr (2023, 3, 31)),
    (2023, Inr (2023, 4, 30)), (2023, Inr (2023, 5, 31)), (2023, Inr (2023, 6, 30)),
    (2023, Inr (2023, 7, 31)), (2023, Inr (2023, 8, 31)), (2023, Inr (2023, 9, 30)),
    (2023, Inr (2023, 10, 31)), (2023, Inr (2023, 11, 30)), (2023, Inr (2023, 12, 31))]"
  using month_end_scan_2023 [of month_end_args_2023 default_config]
  by (simp add: month_end_args_2023_def)

section \<open>The locals of a crawl and the code after the loop\<close>

lemma posted_fields [simp]:
  "all_data (posted p st) = all_data st" "page (posted p st) = page st"
  "total_count (posted p st) = total_count st"
  "empty_response_count (posted p st) = empty_response_count st"
  "retry_count (posted p st) = retry_count st"
  "requests (posted p st) = Suc (requests st)" "events (posted p st) = events st @ [Post p]"
  by (simp_all add: posted_def)

lemma slept_fields [simp]:
  "all_data (slept d st) = all_data st" "page (slept d st) = page st"
  "total_count (slept d st) = total_count st"
  "empty_response_count (slept d st) = empty_response_count st"
  "retry_count (slept d st) = retry_count st"
  "requests (slept d st) = requests st" "events (slept d st) = events st @ [Sleep d]"
  by (simp_all add: slept_def)

lemma advance_fields [simp]:
  "all_data (advance st) = all_data st" "page (advance st) = page st + 1"
  "total_count (advance st) = total_count st"
  "empty_response_count (advance st) = empty_response_count st"
  "retry_count (advance st) = retry_count st"
  "requests (advance st) = requests st" "events (advance st) = events st @ [Sleep 1]"
  by (simp_all add: advance_def)

lemma restart_fields [simp]:
  "all_data (restart st) = []" "page (restart st) = 1"
  "total_count (restart st) = JNull"
  "empty_response_count (restart st) = 0"
  "retry_count (restart st) = retry_count st + 1"
  "requests (restart st) = requests st" "events (restart st) = events st"
  by (simp_all add: restart_def)

lemma read_total_fields [simp]:
  "all_data (fst (read_total j st)) = all_data st"
  "page (fst (read_total j st)) = page st"
  "empty_response_count (fst (read_total j st)) = empty_response_count st"
  "retry_count (fst (read_total j st)) = retry_count st"
  "requests (fst (read_total j st)) = requests st"
  "events (fst (read_total j st)) = events st"
  by (simp_all add: read_total_def split: sum.splits)

lemma page_state_fields [simp]:
  "all_data (page_state j st) = all_data st"
  "page (page_state j st) = page st"
  "empty_response_count (page_state j st) = 0"
  "retry_count (page_state j st) = retry_count st"
  "requests (page_state j st) = Suc (requests st)"
  "events (page_state j st) = events st @ [Post (page st)]"
  by (simp_all add: page_state_def)

lemma restart_ignores_counter [simp]:
  "restart (slept d (st\<lparr>empty_response_count := k\<rparr>)) = restart (slept d st)"
  by (simp add: restart_def slept_def)

lemma restart_after_failure:
  "restart (slept d (posted p st)) =
     \<lparr>all_data = [], page = 1, total_count = JNull, empty_response_count = 0,
      retry_count = retry_count st + 1, requests = Suc (requests st),
      events = events st @ [Post p, Sleep d]\<rparr>"
  by (simp add: restart_def slept_def posted_def)

lemma finish_world [simp]:
  "finish cfg (posted p st) = finish cfg st"
  "finish cfg (slept d st) = finish cfg st"
  "finish cfg (st\<lparr>empty_response_count := k\<rparr>) = finish cfg st"
  by (simp_all add: finish_def posted_def slept_def Let_def split: option.splits)

lemma finish_locals:
  "all_data st = all_data st' \<Longrightarrow> total_count st = total_count st' \<Longrightarrow>
   retry_count st = retry_count st' \<Longrightarrow> finish cfg st = finish cfg st'"
  unfolding finish_def by (simp only:)

lemma finish_rows:
  "finish cfg st = Inr (rows, t, c) \<Longrightarrow> rows = all_data st \<and> t = total_count st"
  by (auto simp: finish_def Let_def split: if_splits option.splits)

lemma finish_returns:
  "total_count st = JNull \<or> num_of (total_count st) \<noteq> None \<Longrightarrow>
     \<exists>c. finish cfg st = Inr (all_data st, total_count st, c)"
  by (auto simp: finish_def Let_def split: option.splits)

lemma num_of_truthy: "num_of t = Some n \<Longrightarrow> n \<noteq> 0 \<Longrightarrow> truthy t"
  by (cases t) (auto split: if_splits)

lemma finish_total_reached:
  assumes "num_of (total_count st) = Some n" and "n \<noteq> 0"
    and "n \<le> int (length (all_data st))"
  shows "finish cfg st = Inr (all_data st, total_count st, True)"
proof -
  have "(of_int n * (995 / 1000) :: rat) \<le> of_int n \<or> n < 0"
    by (cases "0 \<le> n") (simp_all add: field_simps)
  moreover have "(of_int n :: rat) \<le> of_int (int (length (all_data st)))"
    using assms(3) by (simp only: of_int_le_iff)
  moreover have "n < 0 \<Longrightarrow> (of_int n * (995 / 1000) :: rat) \<le> 0"
    by (simp add: mult_le_0_iff)
  ultimately have "(of_int n * (995 / 1000) :: rat) \<le> of_int (int (length (all_data st)))"
    by (auto intro: order_trans)
  moreover have "total_count st \<noteq> JNull" using assms(1) by auto
  ultimately show ?thesis
    using assms num_of_truthy [OF assms(1,2)] by (simp add: finish_def Let_def)
qed

lemma finish_complete_iff:
  assumes "finish cfg st = Inr (rows, t, c)"
  shows "c \<longleftrightarrow> (t = JNull \<or>
     (\<exists>n. num_of t = Some n \<and> \<lceil>of_int n * (995 / 1000 :: rat)\<rceil> \<le> int (length rows)))"
proof (cases "total_count st = JNull")
  case True
  with assms show ?thesis by (auto simp: finish_def Let_def)
next
  case False
  with assms obtain n where n: "num_of (total_count st) = Some n"
    by (auto simp: finish_def Let_def split: option.splits)
  from assms False n have t: "t = total_count st" and rows: "rows = all_data st"
    by (auto simp: finish_def Let_def split: if_splits)
  let ?len = "int (length (all_data st))"
  show ?thesis
  proof (cases "?len < n \<and> (of_int ?len / of_int n * 100 :: rat) < 995 / 10
      \<and> retry_count st < api_max_retries cfg")
    case True
    then have pos: "0 < n" by linarith
    from True have "(of_int ?len :: rat) < of_int n * (995 / 1000)"
      using pos by (simp add: field_simps)
    then have "\<not> \<lceil>of_int n * (995 / 1000 :: rat)\<rceil> \<le> ?len"
      by (simp add: ceiling_le_iff)
    moreover from assms False n True have "\<not> c" by (auto simp: finish_def Let_def)
    ultimately show ?thesis using False n t rows by simp
  next
    case no_early: False
    show ?thesis
    proof (cases "truthy (total_count st)")
      case True
      with assms False n no_early
      have "c \<longleftrightarrow> (of_int n * (995 / 1000) :: rat) \<le> of_int ?len"
        by (auto simp: finish_def Let_def)
      then show ?thesis using False n t rows by (simp add: ceiling_le_iff)
    next
      case falsy: False
      with n have "n = 0" by (cases "total_count st") (auto split: if_splits)
      moreover from assms False n no_early falsy have c by (auto simp: finish_def Let_def)
      ultimately show ?thesis using n t rows by simp
    qed
  qed
qed

lemma threshold_forms:
  "\<lceil>of_int n * (995 / 1000 :: rat)\<rceil> \<le> int k \<longleftrightarrow> (of_int n * (995 / 1000) :: rat) \<le> of_int (int k)"
  by (simp add: ceiling_le_iff)

section \<open>Evaluation of the sample pages\<close>

lemmas crawl_defs =
  step_def try_body_def handle_response_def process_page_def read_total_def after_rows_def
  page_size_check_def verify_next_page_def is_empty_response_def extract_rows_def
  retry_in_try_def on_exception_def

lemma default_key [simp]: "has_api_key default_config"
  by (simp add: has_api_key_def default_config_def)

lemma page_text_not_empty [simp]: "\<not> empty_text (py_strip page_text)"
  by code_simp

lemma more_text_not_empty [simp]: "\<not> empty_text (py_strip more_text)"
  by code_simp

lemma short_text_not_empty [simp]: "\<not> empty_text (py_strip short_text)"
  by code_simp

lemma null_tail_text_not_empty [simp]: "\<not> empty_text (py_strip null_tail_text)"
  by code_simp

lemma braces_empty [simp]: "empty_text (py_strip ''{}'')"
  by code_simp

lemma unit_server_constant [simp]: "unit_server (constant_world srv) year d = srv"
  by (simp add: unit_server_def constant_world_def)

lemma complete_server_step:
  "step default_config complete_server (init_state 0 0) =
     Exit \<lparr>all_data = [sample_row 1, sample_row 2], page = 1, total_count = JInt 2,
           empty_response_count = 0, retry_count = 0, requests = 2,
           events = [Post 1, Post 2]\<rparr>"
  by (simp add: crawl_defs complete_server_def braces_response_def init_state_def data_page_def
        posted_def Let_def)

lemma complete_crawl:
  "crawl_data default_config complete_server 0 0 =
     Some (Inr ([sample_row 1, sample_row 2], JInt 2, True), 2, [Post 1, Post 2])"
  unfolding crawl_data_def
  by (subst crawl_loop.simps) (simp add: complete_server_step finished_def finish_def Let_def)

lemma short_server_step:
  "step default_config short_server (init_state 0 0) =
     Exit \<lparr>all_data = [sample_row 1, sample_row 2], page = 1, total_count = JInt 100,
           empty_response_count = 0, retry_count = 0, requests = 2,
           events = [Post 1, Post 2]\<rparr>"
  by (simp add: crawl_defs short_server_def braces_response_def init_state_def data_page_def
        posted_def default_config_def has_api_key_def Let_def)

lemma short_crawl:
  "crawl_data default_config short_server 0 0 =
     Some (Inr ([sample_row 1, sample_row 2], JInt 100, False), 2, [Post 1, Post 2])"
proof -
  have "finish default_config
      \<lparr>all_data = [sample_row 1, sample_row 2], page = 1, total_count = JInt 100,
       empty_response_count = 0, retry_count = 0, requests = 2, events = [Post 1, Post 2]\<rparr> =
      Inr ([sample_row 1, sample_row 2], JInt 100, False)"
    by (simp add: finish_def default_config_def Let_def)
  then show ?thesis
    unfolding crawl_data_def
    by (subst crawl_loop.simps) (simp add: short_server_step finished_def)
qed

section \<open>Status 300\<close>

lemma step_status_300:
  assumes "has_api_key cfg" and "srv (requests st) (page st) = Returns resp"
    and "status_code resp = 300"
  shows "step cfg srv st = Exit (posted (page st) st)"
  using assms by (simp add: step_def try_body_def handle_response_def)

text \<open>
  C8: a fetch whose HTTP status is 300 ends the crawl of the unit at once: the only effect
  is the request itself (no retry, no sleep), and the result is computed from the rows
  accumulated so far.
\<close>

theorem status_300_terminates:
  assumes "has_api_key cfg" and "srv (requests st) (page st) = Returns resp"
    and "status_code resp = 300"
  shows "crawl_loop cfg srv st =
           Some (finish cfg st, Suc (requests st), events st @ [Post (page st)])
         \<and> (\<forall>rows t c. finish cfg st = Inr (rows, t, c) \<longrightarrow> rows = all_data st)"
proof -
  have "crawl_loop cfg srv st = Some (finished cfg (posted (page st) st))"
    using step_status_300 [of cfg srv st resp] assms
    by (subst crawl_loop.simps) simp
  then show ?thesis
    by (auto simp: finished_def dest: finish_rows)
qed

theorem status_300_terminates_witness:
  "crawl_loop default_config status_300_server
     (init_state 0 0\<lparr>all_data := [sample_row 1], page := 2, requests := 1, events := [Post 1, Sleep 1]\<rparr>)
   = Some (Inr ([sample_row 1], JNull, True), 2, [Post 1, Sleep 1, Post 2])"
  using status_300_terminates [of default_config status_300_server
     "init_state 0 0\<lparr>all_data := [sample_row 1], page := 2, requests := 1, events := [Post 1, Sleep 1]\<rparr>"
     "\<lparr>status_code = 300, resp_text = [], json_body = None\<rparr>"]
  by (simp add: status_300_server_def init_state_def finish_def Let_def)

section \<open>The completion flag\<close>

lemma crawl_loop_result:
  assumes "crawl_loop cfg srv st = Some r"
  shows "(\<exists>st'. r = finished cfg st') \<or> (\<exists>e w. r = (Inl e, w))"
proof (induction cfg srv st r rule: crawl_loop.raw_induct)
  case (1 loop cfg srv st r)
  show ?case
  proof (cases "step cfg srv st")
    case (Continue st')
    with 1 show ?thesis by simp
  next
    case (Exit st')
    with 1 show ?thesis by auto
  next
    case (Call_in_handler st')
    with 1 show ?thesis by simp
  next
    case (Propagate e st')
    with 1 show ?thesis by auto
  next
    case (Call_in_try st')
    with 1(2) obtain r' where r': "loop cfg srv (restart st') = Some r'"
      and cont: "(case fst r' of
                    Inr res \<Rightarrow> Some r'
                  | Inl e \<Rightarrow>
                      (case on_exception cfg (with_world (snd r') st') of
                         Call_in_handler st'' \<Rightarrow> loop cfg srv (restart st'')
                       | Propagate e' st'' \<Rightarrow> Some (Inl e', requests st'', events st'')
                       | Exit st'' \<Rightarrow> Some (finished cfg st'')
                       | Continue st'' \<Rightarrow> None
                       | Call_in_try st'' \<Rightarrow> None)) = Some r"
      by (auto simp: bind_eq_Some_conv)
    show ?thesis
    proof (cases "fst r'")
      case (Inr res)
      with cont have "r = r'" by simp
      with r' 1(1) show ?thesis by simp
    next
      case (Inl e)
      with cont 1(1) show ?thesis
        by (cases "on_exception cfg (with_world (snd r') st')") auto
    qed
  qed
qed fact

text \<open>
  C2: whenever a crawl returns, \<^verbatim>\<open>is_complete\<close> is true exactly when the total is
  unknown or the number of collected rows is at least the ceiling of 0.995 times the total;
  for the integer number of rows this is the same as being at least 0.995 times the total.
\<close>

theorem is_complete_threshold:
  assumes "crawl_data cfg srv start rc = Some (Inr (rows, t, c), w)"
  shows "(c \<longleftrightarrow> (t = JNull \<or>
            (\<exists>n. num_of t = Some n \<and> \<lceil>of_int n * (995 / 1000 :: rat)\<rceil> \<le> int (length rows))))
       \<and> (c \<longleftrightarrow> (t = JNull \<or>
            (\<exists>n. num_of t = Some n
                 \<and> (of_int n * (995 / 1000) :: rat) \<le> of_int (int (length rows)))))"
proof -
  from assms crawl_loop_result [of cfg srv "init_state rc start" "(Inr (rows, t, c), w)"]
  obtain st' where "finish cfg st' = Inr (rows, t, c)"
    by (auto simp: crawl_data_def finished_def)
  then have "c \<longleftrightarrow> (t = JNull \<or>
      (\<exists>n. num_of t = Some n \<and> \<lceil>of_int n * (995 / 1000 :: rat)\<rceil> \<le> int (length rows)))"
    by (rule finish_complete_iff)
  then show ?thesis by (simp only: threshold_forms)
qed

theorem is_complete_threshold_witness:
  "crawl_data default_config complete_server 0 0 =
     Some (Inr ([sample_row 1, sample_row 2], JInt 2, True), 2, [Post 1, Post 2])"
proof -
  have run: "crawl_data default_config complete_server 0 0 =
     Some (Inr ([sample_row 1, sample_row 2], JInt 2, True), 2, [Post 1, Post 2])"
    unfolding crawl_data_def
    by (subst crawl_loop.simps) (simp add: complete_server_step finished_def finish_def Let_def)
  from is_complete_threshold [OF run] run show ?thesis by simp
qed

section \<open>Transport errors on every request\<close>

lemma on_exception_leaves:
  "(\<exists>st'. on_exception cfg st = Exit st')
   \<or> (\<exists>st'. on_exception cfg st = Call_in_handler st')
   \<or> (\<exists>e st'. on_exception cfg st = Propagate e st')"
  by (simp add: on_exception_def)

lemma step_transport_error:
  assumes "has_api_key cfg" and "srv (requests st) (page st) = RequestException"
  shows "step cfg srv st = on_exception cfg (posted (page st) st)"
  using assms by (simp add: step_def try_body_def)

lemma all_requests_fail:
  assumes key: "has_api_key cfg" and delay: "0 \<le> api_retry_delay cfg"
    and fail: "\<And>i p. srv i p = RequestException"
  shows "all_data st = [] \<Longrightarrow> total_count st = JNull \<Longrightarrow> page st = 1 \<Longrightarrow>
     nat (api_max_retries cfg - retry_count st) = k \<Longrightarrow>
     crawl_loop cfg srv st =
       Some (Inr ([], JNull, True), requests st + k + 1,
             events st @ concat (replicate k [Post 1, Sleep (api_retry_delay cfg)]) @ [Post 1])"
proof (induction k arbitrary: st)
  case 0
  then have "\<not> retry_count st < api_max_retries cfg" by simp
  then have "step cfg srv st = Exit (posted 1 st)"
    using step_transport_error [of cfg srv st] key fail 0 by (simp add: on_exception_def)
  then have "crawl_loop cfg srv st = Some (finished cfg (posted 1 st))"
    by (subst crawl_loop.simps) simp
  with 0 show ?case by (simp add: finished_def finish_def)
next
  case (Suc k)
  let ?st' = "restart (slept (api_retry_delay cfg) (posted 1 st))"
  from Suc.prems have "retry_count st < api_max_retries cfg" by simp
  then have "step cfg srv st = Call_in_handler (slept (api_retry_delay cfg) (posted 1 st))"
    using step_transport_error [of cfg srv st] key fail delay Suc.prems
    by (simp add: on_exception_def)
  then have "crawl_loop cfg srv st = crawl_loop cfg srv ?st'"
    by (subst crawl_loop.simps) simp
  moreover have "nat (api_max_retries cfg - retry_count ?st') = k"
    using Suc.prems by simp
  ultimately show ?case
    using Suc.IH [of ?st'] by simp
qed

text \<open>
  C3, as amended: when every fetch raises a transport error, the crawler retries exactly
  \<^verbatim>\<open>max_retries\<close> times, sleeping before each retry, and returns no rows, no total and
  \<^verbatim>\<open>is_complete\<close> true (the total is unknown); none of the three recording places of
  \<^verbatim>\<open>main\<close> adds an entry for such a result.
\<close>

theorem transport_errors_exhaust_retries:
  assumes "has_api_key cfg" and "0 \<le> api_retry_delay cfg"
    and "\<And>i p. srv i p = RequestException"
  shows "crawl_data cfg srv start 0 =
           Some (Inr ([], JNull, True), start + nat (api_max_retries cfg) + 1,
                 concat (replicate (nat (api_max_retries cfg))
                           [Post 1, Sleep (api_retry_delay cfg)]) @ [Post 1])
         \<and> record_range d year ([], JNull, True) ledger = ledger
         \<and> record_retry item ([], JNull, True) ledger = ledger
         \<and> record_date d year ([], JNull, True) ledger = ledger"
proof -
  have "crawl_loop cfg srv (init_state 0 start) =
      Some (Inr ([], JNull, True), requests (init_state 0 start) + nat (api_max_retries cfg) + 1,
            events (init_state 0 start) @
              concat (replicate (nat (api_max_retries cfg))
                        [Post 1, Sleep (api_retry_delay cfg)]) @ [Post 1])"
    using assms by (intro all_requests_fail) (simp_all add: init_state_def)
  then show ?thesis
    by (simp add: crawl_data_def init_state_def record_range_def record_retry_def record_date_def)
qed

theorem transport_errors_exhaust_retries_witness:
  "crawl_data default_config failing_server 0 0 =
     Some (Inr ([], JNull, True), 4,
           [Post 1, Sleep 5, Post 1, Sleep 5, Post 1, Sleep 5, Post 1])
   \<and> record_range (2023, 1, 31) 2023 ([], JNull, True) [] = []"
proof -
  have "nat (api_max_retries default_config) = Suc (Suc (Suc 0))"
    by (simp add: default_config_def)
  moreover have "0 \<le> api_retry_delay default_config" by (simp add: default_config_def)
  moreover have "api_retry_delay default_config = 5" by (simp add: default_config_def)
  moreover have "\<And>i p. failing_server i p = RequestException" by (simp add: failing_server_def)
  ultimately show ?thesis
    using transport_errors_exhaust_retries
      [of default_config failing_server 0 "(2023, 1, 31)" 2023 "[]"]
    by simp
qed

text \<open>
  C3 as stated fails: with the default configuration and a server that always raises, the
  crawl returns \<^verbatim>\<open>is_complete\<close> true, not false.
\<close>

theorem transport_errors_complete_counterexample:
  "crawl_data default_config failing_server 0 0 =
     Some (Inr ([], JNull, True), 4,
           [Post 1, Sleep 5, Post 1, Sleep 5, Post 1, Sleep 5, Post 1])
   \<and> crawl_data default_config failing_server 0 0 \<noteq>
     Some (Inr ([], JNull, False), 4,
           [Post 1, Sleep 5, Post 1, Sleep 5, Post 1, Sleep 5, Post 1])"
proof -
  have key: "has_api_key default_config" by simp
  have delay: "0 \<le> api_retry_delay default_config" by (simp add: default_config_def)
  have "nat (api_max_retries default_config - retry_count (init_state 0 0)) = Suc (Suc (Suc 0))"
    by (simp add: default_config_def init_state_def)
  then have "crawl_loop default_config failing_server (init_state 0 0) =
      Some (Inr ([], JNull, True), requests (init_state 0 0) + Suc (Suc (Suc 0)) + 1,
            events (init_state 0 0) @
              concat (replicate (Suc (Suc (Suc 0)))
                        [Post 1, Sleep (api_retry_delay default_config)]) @ [Post 1])"
    using key delay by (intro all_requests_fail) (simp_all add: init_state_def failing_server_def)
  then show ?thesis
    by (simp add: crawl_data_def init_state_def default_config_def)
qed

section \<open>Retries restart the unit\<close>

lemma step_retryable:
  assumes "has_api_key cfg" and "0 \<le> api_retry_delay cfg"
    and "retryable_failure (srv (requests st) (page st))"
  shows "retry_count st < api_max_retries cfg \<Longrightarrow>
           step cfg srv st = Call_in_handler (slept (api_retry_delay cfg) (posted (page st) st))
         \<or> step cfg srv st = Call_in_try (slept (api_retry_delay cfg) (posted (page st) st))
         \<or> step cfg srv st = Call_in_try (slept (api_retry_delay cfg)
               ((posted (page st) st)\<lparr>empty_response_count := 0\<rparr>))"
    and "\<not> retry_count st < api_max_retries cfg \<Longrightarrow>
           step cfg srv st = Exit (posted (page st) st)
         \<or> step cfg srv st = Exit ((posted (page st) st)\<lparr>empty_response_count := 0\<rparr>)"
  using assms
  by (auto simp: step_def try_body_def handle_response_def retry_in_try_def on_exception_def
        retryable_failure_def Let_def split: post_result.splits if_splits)

lemma call_in_try_returns:
  assumes "step cfg srv st = Call_in_try st'"
  shows "crawl_loop cfg srv (restart st') = Some (Inr res, w) \<Longrightarrow>
           crawl_loop cfg srv st = Some (Inr res, w)"
    and "crawl_loop cfg srv (restart st') = None \<Longrightarrow> crawl_loop cfg srv st = None"
  using assms by (subst crawl_loop.simps, simp)+

lemma loop_head_failure:
  assumes "has_api_key cfg" and "0 \<le> api_retry_delay cfg"
    and "retryable_failure (srv (requests st) (page st))"
    and "st' = \<lparr>all_data = [], page = 1, total_count = JNull, empty_response_count = 0,
                retry_count = retry_count st + 1, requests = Suc (requests st),
                events = events st @ [Post (page st), Sleep (api_retry_delay cfg)]\<rparr>"
  shows "(retry_count st < api_max_retries cfg \<longrightarrow>
           (\<forall>res w. crawl_loop cfg srv st' = Some (Inr res, w) \<longrightarrow>
                      crawl_loop cfg srv st = Some (Inr res, w))
           \<and> (crawl_loop cfg srv st' = None \<longrightarrow> crawl_loop cfg srv st = None))
       \<and> (\<not> retry_count st < api_max_retries cfg \<longrightarrow>
             crawl_loop cfg srv st =
               Some (finish cfg st, Suc (requests st), events st @ [Post (page st)])
             \<and> (\<forall>rows t c. finish cfg st = Inr (rows, t, c) \<longrightarrow> rows = all_data st))"
proof (intro conjI impI)
  have st': "st' = restart (slept (api_retry_delay cfg) (posted (page st) st))"
    using assms(4) by (simp add: restart_after_failure)
  assume rc: "retry_count st < api_max_retries cfg"
  have "(\<forall>res w. crawl_loop cfg srv st' = Some (Inr res, w) \<longrightarrow>
                            crawl_loop cfg srv st = Some (Inr res, w))
      \<and> (crawl_loop cfg srv st' = None \<longrightarrow> crawl_loop cfg srv st = None)"
    using step_retryable(1) [of cfg srv st, OF assms(1-3) rc]
  proof (elim disjE)
    assume "step cfg srv st = Call_in_handler (slept (api_retry_delay cfg) (posted (page st) st))"
    then have "crawl_loop cfg srv st = crawl_loop cfg srv st'"
      unfolding st' by (subst crawl_loop.simps) simp
    then show ?thesis by simp
  next
    assume "step cfg srv st = Call_in_try (slept (api_retry_delay cfg) (posted (page st) st))"
    from call_in_try_returns [OF this] show ?thesis unfolding st' by blast
  next
    assume "step cfg srv st = Call_in_try (slept (api_retry_delay cfg)
               ((posted (page st) st)\<lparr>empty_response_count := 0\<rparr>))"
    from call_in_try_returns [OF this] show ?thesis unfolding st' by simp
  qed
  then show "\<forall>res w. crawl_loop cfg srv st' = Some (Inr res, w) \<longrightarrow>
                            crawl_loop cfg srv st = Some (Inr res, w)"
    and "crawl_loop cfg srv st' = None \<Longrightarrow> crawl_loop cfg srv st = None"
    by blast+
next
  assume rc: "\<not> retry_count st < api_max_retries cfg"
  from step_retryable(2) [of cfg srv st, OF assms(1-3) rc]
  have "crawl_loop cfg srv st = Some (finished cfg (posted (page st) st))
      \<or> crawl_loop cfg srv st =
           Some (finished cfg ((posted (page st) st)\<lparr>empty_response_count := 0\<rparr>))"
    by (subst (1 2) crawl_loop.simps) auto
  then show "crawl_loop cfg srv st =
               Some (finish cfg st, Suc (requests st), events st @ [Post (page st)])"
    by (auto simp: finished_def)
next
  assume "\<not> retry_count st < api_max_retries cfg"
  show "\<forall>rows t c. finish cfg st = Inr (rows, t, c) \<longrightarrow> rows = all_data st"
    by (auto dest: finish_rows)
qed

lemma verify_breaks_on_failure:
  assumes "has_api_key cfg" and "srv (requests st) (page st + 1) = Returns v"
    and "probe_failure v"
  shows "verify_next_page cfg srv st = Break (posted (page st + 1) st)"
  using assms by (auto simp: verify_next_page_def probe_failure_def Let_def split: if_splits)

text \<open>
  C5, as amended: after a retryable failure of the page request at the head of a loop
  iteration (a transport or other exception, status 500, another status that is neither 200
  nor 300, or a body that does not decode), with retries left the crawl starts again from
  page 1 with no rows and one more retry counted, and what that new attempt returns is what
  the crawl returns; with no retries left the crawl ends with the rows accumulated before
  the failure. A verification fetch that answers with a status other than 200 or with a body
  that does not decode is not retried: the probe breaks out of the loop.
\<close>

theorem retry_restarts_unit:
  assumes "has_api_key cfg" and "0 \<le> api_retry_delay cfg"
    and "retryable_failure (srv (requests st) (page st))"
    and "st' = \<lparr>all_data = [], page = 1, total_count = JNull, empty_response_count = 0,
                retry_count = retry_count st + 1, requests = Suc (requests st),
                events = events st @ [Post (page st), Sleep (api_retry_delay cfg)]\<rparr>"
  shows "(retry_count st < api_max_retries cfg \<longrightarrow>
           (\<forall>res w. crawl_loop cfg srv st' = Some (Inr res, w) \<longrightarrow>
                      crawl_loop cfg srv st = Some (Inr res, w))
           \<and> (crawl_loop cfg srv st' = None \<longrightarrow> crawl_loop cfg srv st = None))
       \<and> (\<not> retry_count st < api_max_retries cfg \<longrightarrow>
             crawl_loop cfg srv st =
               Some (finish cfg st, Suc (requests st), events st @ [Post (page st)])
             \<and> (\<forall>rows t c. finish cfg st = Inr (rows, t, c) \<longrightarrow> rows = all_data st))
       \<and> (\<forall>probing v. srv (requests probing) (page probing + 1) = Returns v \<and> probe_failure v
             \<longrightarrow> verify_next_page cfg srv probing = Break (posted (page probing + 1) probing))"
proof -
  have "\<forall>probing v. srv (requests probing) (page probing + 1) = Returns v \<and> probe_failure v
             \<longrightarrow> verify_next_page cfg srv probing = Break (posted (page probing + 1) probing)"
  proof (intro allI impI)
    fix probing :: crawl_state and v
    assume "srv (requests probing) (page probing + 1) = Returns v \<and> probe_failure v"
    with assms(1) verify_breaks_on_failure [of cfg srv probing v]
    show "verify_next_page cfg srv probing = Break (posted (page probing + 1) probing)"
      by blast
  qed
  with loop_head_failure [of cfg srv st st', OF assms] show ?thesis by simp
qed

theorem retry_restarts_unit_witness:
  "crawl_loop default_config flaky_server (second_page_state 0) =
     Some (Inr ([], JNull, True), 3, [Post 1, Sleep 1, Post 2, Sleep 5, Post 1])
   \<and> crawl_loop default_config flaky_server (second_page_state 3) =
     Some (Inr ([sample_row 1], JNull, True), 2, [Post 1, Sleep 1, Post 2])
   \<and> verify_next_page default_config probe_500_server (second_page_state 0) =
     Break (posted 3 (second_page_state 0))"
proof -
  have key: "has_api_key default_config" by simp
  have delay: "0 \<le> api_retry_delay default_config" by (simp add: default_config_def)
  have fail: "retryable_failure (flaky_server (requests (second_page_state rc)) (page (second_page_state rc)))" for rc
    by (simp add: retryable_failure_def flaky_server_def second_page_state_def)
  have fail_500: "retryable_failure
      (probe_500_server (requests (second_page_state 0)) (page (second_page_state 0)))"
    by (simp add: retryable_failure_def probe_500_server_def second_page_state_def)
  define st' where "st' rc =
      \<lparr>all_data = [], page = 1, total_count = JNull, empty_response_count = 0,
       retry_count = retry_count (second_page_state rc) + 1,
       requests = Suc (requests (second_page_state rc)),
       events = events (second_page_state rc)
                  @ [Post (page (second_page_state rc)), Sleep (api_retry_delay default_config)]\<rparr>"
    for rc
  have "step default_config flaky_server (st' 0) = Exit (posted 1 (st' 0))"
    using step_status_300 [of default_config flaky_server "st' 0"
        "\<lparr>status_code = 300, resp_text = [], json_body = None\<rparr>"]
    by (simp add: flaky_server_def second_page_state_def st'_def)
  then have restarted: "crawl_loop default_config flaky_server (st' 0) =
      Some (Inr ([], JNull, True), 3, [Post 1, Sleep 1, Post 2, Sleep 5, Post 1])"
    by (subst crawl_loop.simps)
       (simp add: finished_def finish_def second_page_state_def st'_def default_config_def)
  have first: "crawl_loop default_config flaky_server (second_page_state 0) =
     Some (Inr ([], JNull, True), 3, [Post 1, Sleep 1, Post 2, Sleep 5, Post 1])"
    using retry_restarts_unit [of default_config flaky_server "second_page_state 0" "st' 0",
        OF key delay fail st'_def] restarted
    by (auto simp: default_config_def second_page_state_def)
  have second: "crawl_loop default_config flaky_server (second_page_state 3) =
     Some (Inr ([sample_row 1], JNull, True), 2, [Post 1, Sleep 1, Post 2])"
    using retry_restarts_unit [of default_config flaky_server "second_page_state 3" "st' 3",
        OF key delay fail st'_def]
    by (simp add: default_config_def second_page_state_def finish_def)
  have probe: "probe_500_server (requests (second_page_state 0)) (page (second_page_state 0) + 1) =
        Returns \<lparr>status_code = 500, resp_text = [], json_body = None\<rparr>
      \<and> probe_failure \<lparr>status_code = 500, resp_text = [], json_body = None\<rparr>"
    by (simp add: probe_500_server_def second_page_state_def probe_failure_def)
  have third: "verify_next_page default_config probe_500_server (second_page_state 0) =
     Break (posted 3 (second_page_state 0))"
    using retry_restarts_unit [of default_config probe_500_server "second_page_state 0" "st' 0",
        OF key delay fail_500 st'_def] probe
    by (auto simp: second_page_state_def)
  from first second third show ?thesis by simp
qed

text \<open>
  C5 as stated fails: page 1 brings the two announced rows, the verification fetch of page 2
  answers with status 500 while three retries are left, and the crawl ends at once, without
  sleep or restart, with both rows and \<^verbatim>\<open>is_complete\<close> true.
\<close>

theorem probe_failure_not_retried_counterexample:
  "crawl_data default_config probe_500_server 0 0 =
     Some (Inr ([sample_row 1, sample_row 2], JInt 2, True), 2, [Post 1, Post 2])
   \<and> retryable_failure (probe_500_server 1 2)
   \<and> retry_count (init_state 0 0) < api_max_retries default_config"
proof -
  have "step default_config probe_500_server (init_state 0 0) =
     Exit \<lparr>all_data = [sample_row 1, sample_row 2], page = 1, total_count = JInt 2,
           empty_response_count = 0, retry_count = 0, requests = 2,
           events = [Post 1, Post 2]\<rparr>"
    by (simp add: crawl_defs probe_500_server_def init_state_def data_page_def
          posted_def Let_def)
  then have "crawl_data default_config probe_500_server 0 0 =
     Some (Inr ([sample_row 1, sample_row 2], JInt 2, True), 2, [Post 1, Post 2])"
    unfolding crawl_data_def
    by (subst crawl_loop.simps) (simp add: finished_def finish_def Let_def)
  then show ?thesis
    by (simp add: retryable_failure_def probe_500_server_def init_state_def default_config_def)
qed

section \<open>Consecutive empty responses\<close>

lemma step_empty_text:
  assumes "has_api_key cfg" and "srv (requests st) (page st) = Returns resp"
    and "status_code resp = 200" and "empty_text (py_strip (resp_text resp))"
  shows "step cfg srv st =
           (if 1 \<le> empty_response_count st
            then Exit ((posted (page st) st)\<lparr>empty_response_count := empty_response_count st + 1\<rparr>)
            else Continue (advance ((posted (page st) st)\<lparr>empty_response_count := 1\<rparr>)))"
  using assms by (auto simp: step_def try_body_def handle_response_def Let_def)

lemma consecutive_empty_texts_terminate:
  assumes "has_api_key cfg" and "empty_response_count st = 0"
    and "srv (requests st) (page st) = Returns r1"
    and "status_code r1 = 200" and "empty_text (py_strip (resp_text r1))"
    and "srv (Suc (requests st)) (page st + 1) = Returns r2"
    and "status_code r2 = 200" and "empty_text (py_strip (resp_text r2))"
  shows "crawl_loop cfg srv st =
           Some (finish cfg st, requests st + 2,
                 events st @ [Post (page st), Sleep 1, Post (page st + 1)])"
proof -
  let ?st1 = "advance ((posted (page st) st)\<lparr>empty_response_count := 1\<rparr>)"
  have "step cfg srv st = Continue ?st1"
    using step_empty_text [of cfg srv st r1] assms by simp
  then have first: "crawl_loop cfg srv st = crawl_loop cfg srv ?st1"
    by (subst crawl_loop.simps) simp
  have "step cfg srv ?st1 =
      Exit ((posted (page ?st1) ?st1)\<lparr>empty_response_count := empty_response_count ?st1 + 1\<rparr>)"
    using step_empty_text [of cfg srv ?st1 r2] assms by simp
  then have "crawl_loop cfg srv ?st1 =
      Some (finished cfg
        ((posted (page ?st1) ?st1)\<lparr>empty_response_count := empty_response_count ?st1 + 1\<rparr>))"
    by (subst crawl_loop.simps) simp
  moreover have "finish cfg ?st1 = finish cfg st"
    by (rule finish_locals) simp_all
  ultimately show ?thesis
    using first by (simp add: finished_def)
qed

lemma empty_structure_classified:
  "status_code empty_structure_response = 200"
  "\<not> empty_text (py_strip (resp_text empty_structure_response))"
  "json_body empty_structure_response = Some (JDict [(''QWGJK'', JList [])])"
  "is_empty_response (JDict [(''QWGJK'', JList [])]) = Inr True"
  by (simp add: empty_structure_response_def, code_simp,
      simp add: empty_structure_response_def, simp add: is_empty_response_def)

lemma step_empty_structure_no_rows:
  assumes "has_api_key cfg" and "srv (requests st) (page st) = Returns resp"
    and "status_code resp = 200" and "\<not> empty_text (py_strip (resp_text resp))"
    and "json_body resp = Some response_json"
    and "is_empty_response response_json = Inr True"
    and "all_data st = []"
  shows "step cfg srv st =
           Continue (advance ((posted (page st) st)\<lparr>empty_response_count := 1\<rparr>))"
  using assms by (simp add: step_def try_body_def handle_response_def Let_def)

lemma empty_structure_never_returns:
  assumes "has_api_key cfg" and "all_data st = []"
    and "crawl_loop cfg empty_structure_server st = Some r"
  shows False
  using assms(1,2)
proof (induction cfg empty_structure_server st r rule: crawl_loop.raw_induct)
  case (1 loop cfg st r)
  have "step cfg empty_structure_server st =
      Continue (advance ((posted (page st) st)\<lparr>empty_response_count := 1\<rparr>))"
    using 1(3,4) empty_structure_classified
    by (intro step_empty_structure_no_rows [where resp = empty_structure_response])
       (simp_all add: empty_structure_server_def)
  with 1(2) have "loop cfg empty_structure_server
      (advance ((posted (page st) st)\<lparr>empty_response_count := 1\<rparr>)) = Some r"
    by simp
  from 1(1) [OF this 1(3)] 1(4) show ?case by simp
qed fact

text \<open>
  C1 fails on the code: the counter of empty responses is reset before the structure of the
  body is looked at, so empty-structure pages never bring it to 2. With a server whose every
  page is \<^verbatim>\<open>{"QWGJK":[]}\<close> and no rows collected, the crawl requests page after page
  and never returns.
\<close>

theorem empty_structure_pages_never_terminate:
  "crawl_data default_config empty_structure_server 0 0 = None"
proof (cases "crawl_data default_config empty_structure_server 0 0")
  case None
  then show ?thesis .
next
  case (Some r)
  then have "crawl_loop default_config empty_structure_server (init_state 0 0) = Some r"
    by (simp add: crawl_data_def)
  with empty_structure_never_returns [of default_config "init_state 0 0" r]
  show ?thesis by (simp add: init_state_def)
qed

section \<open>The verification fetch\<close>

lemma try_body_total_reached:
  assumes "has_api_key cfg" and "srv (requests st) (page st) = Returns resp"
    and "status_code resp = 200" and "\<not> empty_text (py_strip (resp_text resp))"
    and "json_body resp = Some j" and "is_empty_response j = Inr False"
    and "py_in ''QWGJK'' j = Inr True"
    and "snd (read_total j ((posted (page st) st)\<lparr>empty_response_count := 0\<rparr>)) = None"
    and "extract_rows j = Inr rows"
    and "num_of (total_count (page_state j st)) = Some n" and "n \<noteq> 0"
    and "n \<le> int (length (all_data st) + length rows)"
  shows "try_body cfg srv st =
           verify_next_page cfg srv ((page_state j st)\<lparr>all_data := all_data st @ rows\<rparr>)"
proof -
  have rows: "rows \<noteq> []" using assms(6,7,9) by (rule valid_page_rows)
  have known: "total_count (page_state j st) \<noteq> JNull" using assms(10) by auto
  have "process_page cfg srv j ((posted (page st) st)\<lparr>empty_response_count := 0\<rparr>) =
      after_rows cfg srv rows ((page_state j st)\<lparr>all_data := all_data st @ rows\<rparr>)"
    using assms(7,8,9) rows by (simp add: process_page_def page_state_def Let_def)
  also have "\<dots> = verify_next_page cfg srv ((page_state j st)\<lparr>all_data := all_data st @ rows\<rparr>)"
    using known assms(10,11,12) by (simp add: after_rows_def Let_def)
  finally show ?thesis
    using assms(1-6) by (simp add: try_body_def handle_response_def Let_def)
qed

lemma verify_confirms_end:
  assumes "has_api_key cfg" and "srv (requests st) (page st + 1) = Returns v"
    and "status_code v = 200"
    and "empty_text (py_strip (resp_text v))
         \<or> (\<exists>vj. json_body v = Some vj \<and> is_empty_response vj = Inr True)"
  shows "verify_next_page cfg srv st = Break (posted (page st + 1) st)"
  using assms by (auto simp: verify_next_page_def Let_def)

lemma verify_finds_data:
  assumes "has_api_key cfg" and "srv (requests st) (page st + 1) = Returns v"
    and "status_code v = 200" and "\<not> empty_text (py_strip (resp_text v))"
    and "json_body v = Some vj" and "is_empty_response vj = Inr False"
  shows "verify_next_page cfg srv st = Next ((posted (page st + 1) st)\<lparr>page := page st + 1\<rparr>)"
  using assms by (simp add: verify_next_page_def Let_def)

lemma page_state_later_page:
  "page st \<noteq> 1 \<Longrightarrow> page_state j st = (posted (page st) st)\<lparr>empty_response_count := 0\<rparr>"
  "page st \<noteq> 1 \<Longrightarrow>
     snd (read_total j ((posted (page st) st)\<lparr>empty_response_count := 0\<rparr>)) = None"
  by (simp_all add: page_state_def read_total_def)

text \<open>
  C4, as amended: when a valid page brings the number of accumulated rows up to a known
  total that is not 0, the crawler requests page+1 once. If that page is empty, by its text
  or by its structure, the crawl ends after exactly these two requests with all the rows and
  \<^verbatim>\<open>is_complete\<close> true. If it holds data, its body is discarded and the loop goes on at
  page+1 with the rows collected so far; page+1 is then requested again, and the rows that
  are appended are those of that second answer.
\<close>

theorem verification_fetch_after_total:
  assumes "has_api_key cfg" and "srv (requests st) (page st) = Returns resp"
    and "status_code resp = 200" and "\<not> empty_text (py_strip (resp_text resp))"
    and "json_body resp = Some j" and "is_empty_response j = Inr False"
    and "py_in ''QWGJK'' j = Inr True"
    and "snd (read_total j ((posted (page st) st)\<lparr>empty_response_count := 0\<rparr>)) = None"
    and "extract_rows j = Inr rows"
    and "num_of (total_count (page_state j st)) = Some n" and "n \<noteq> 0"
    and "n \<le> int (length (all_data st) + length rows)"
    and "st3 = \<lparr>all_data = all_data st @ rows, page = page st + 1,
                 total_count = total_count (page_state j st), empty_response_count = 0,
                 retry_count = retry_count st, requests = requests st + 2,
                 events = events st @ [Post (page st), Post (page st + 1)]\<rparr>"
  shows "(\<forall>v. srv (Suc (requests st)) (page st + 1) = Returns v \<and> status_code v = 200
              \<and> (empty_text (py_strip (resp_text v))
                  \<or> (\<exists>vj. json_body v = Some vj \<and> is_empty_response vj = Inr True))
            \<longrightarrow> crawl_loop cfg srv st =
                  Some (Inr (all_data st @ rows, total_count (page_state j st), True),
                        requests st + 2, events st @ [Post (page st), Post (page st + 1)]))
       \<and> (\<forall>v vj. srv (Suc (requests st)) (page st + 1) = Returns v \<and> status_code v = 200
              \<and> \<not> empty_text (py_strip (resp_text v))
              \<and> json_body v = Some vj \<and> is_empty_response vj = Inr False
            \<longrightarrow> crawl_loop cfg srv st = crawl_loop cfg srv st3)
       \<and> (\<forall>again j' rows'. 1 \<le> page st
              \<and> srv (requests st + 2) (page st + 1) = Returns again \<and> status_code again = 200
              \<and> \<not> empty_text (py_strip (resp_text again))
              \<and> json_body again = Some j' \<and> is_empty_response j' = Inr False
              \<and> py_in ''QWGJK'' j' = Inr True \<and> extract_rows j' = Inr rows'
            \<longrightarrow> try_body cfg srv st3 =
                  verify_next_page cfg srv
                    \<lparr>all_data = all_data st @ rows @ rows', page = page st + 1,
                     total_count = total_count (page_state j st), empty_response_count = 0,
                     retry_count = retry_count st, requests = requests st + 3,
                     events = events st
                       @ [Post (page st), Post (page st + 1), Post (page st + 1)]\<rparr>)"
proof -
  have first_two: "(\<forall>v. srv (Suc (requests st)) (page st + 1) = Returns v \<and> status_code v = 200
              \<and> (empty_text (py_strip (resp_text v))
                  \<or> (\<exists>vj. json_body v = Some vj \<and> is_empty_response vj = Inr True))
            \<longrightarrow> crawl_loop cfg srv st =
                  Some (Inr (all_data st @ rows, total_count (page_state j st), True),
                        requests st + 2, events st @ [Post (page st), Post (page st + 1)]))
       \<and> (\<forall>v vj. srv (Suc (requests st)) (page st + 1) = Returns v \<and> status_code v = 200
              \<and> \<not> empty_text (py_strip (resp_text v))
              \<and> json_body v = Some vj \<and> is_empty_response vj = Inr False
            \<longrightarrow> crawl_loop cfg srv st =
                  crawl_loop cfg srv
                    \<lparr>all_data = all_data st @ rows, page = page st + 1,
                     total_count = total_count (page_state j st), empty_response_count = 0,
                     retry_count = retry_count st, requests = requests st + 2,
                     events = events st @ [Post (page st), Post (page st + 1)]\<rparr>)"
  proof (intro conjI allI impI)
  let ?st2 = "(page_state j st)\<lparr>all_data := all_data st @ rows\<rparr>"
  have body: "try_body cfg srv st = verify_next_page cfg srv ?st2"
    using assms(1-12) by (rule try_body_total_reached)
  {
    fix v
    assume v: "srv (Suc (requests st)) (page st + 1) = Returns v \<and> status_code v = 200
              \<and> (empty_text (py_strip (resp_text v))
                  \<or> (\<exists>vj. json_body v = Some vj \<and> is_empty_response vj = Inr True))"
    have "verify_next_page cfg srv ?st2 = Break (posted (page ?st2 + 1) ?st2)"
      using assms(1) v by (intro verify_confirms_end [where v = v]) simp_all
    with body have "step cfg srv st = Exit (posted (page st + 1) ?st2)"
      by (simp add: step_def)
    then have "crawl_loop cfg srv st = Some (finished cfg (posted (page st + 1) ?st2))"
      by (subst crawl_loop.simps) simp
    moreover have "finish cfg ?st2 = Inr (all_data ?st2, total_count ?st2, True)"
      using assms(10,11,12) by (intro finish_total_reached [where n = n]) simp_all
    ultimately show "crawl_loop cfg srv st =
                  Some (Inr (all_data st @ rows, total_count (page_state j st), True),
                        requests st + 2, events st @ [Post (page st), Post (page st + 1)])"
      by (simp add: finished_def)
  }
  {
    fix v vj
    assume v: "srv (Suc (requests st)) (page st + 1) = Returns v \<and> status_code v = 200
              \<and> \<not> empty_text (py_strip (resp_text v))
              \<and> json_body v = Some vj \<and> is_empty_response vj = Inr False"
    have "verify_next_page cfg srv ?st2 =
        Next ((posted (page ?st2 + 1) ?st2)\<lparr>page := page ?st2 + 1\<rparr>)"
      using assms(1) v by (intro verify_finds_data [where v = v and vj = vj]) simp_all
    with body have "step cfg srv st = Continue ((posted (page st + 1) ?st2)\<lparr>page := page st + 1\<rparr>)"
      by (simp add: step_def)
    then have "crawl_loop cfg srv st =
        crawl_loop cfg srv ((posted (page st + 1) ?st2)\<lparr>page := page st + 1\<rparr>)"
      by (subst crawl_loop.simps) simp
    moreover have "(posted (page st + 1) ?st2)\<lparr>page := page st + 1\<rparr> =
        \<lparr>all_data = all_data st @ rows, page = page st + 1,
         total_count = total_count (page_state j st), empty_response_count = 0,
         retry_count = retry_count st, requests = requests st + 2,
         events = events st @ [Post (page st), Post (page st + 1)]\<rparr>"
      by (simp add: posted_def)
    ultimately show "crawl_loop cfg srv st =
                  crawl_loop cfg srv
                    \<lparr>all_data = all_data st @ rows, page = page st + 1,
                     total_count = total_count (page_state j st), empty_response_count = 0,
                     retry_count = retry_count st, requests = requests st + 2,
                     events = events st @ [Post (page st), Post (page st + 1)]\<rparr>"
      by (simp only:)
  }
qed


  have third: "try_body cfg srv st3 =
                  verify_next_page cfg srv
                    \<lparr>all_data = all_data st @ rows @ rows', page = page st + 1,
                     total_count = total_count (page_state j st), empty_response_count = 0,
                     retry_count = retry_count st, requests = requests st + 3,
                     events = events st
                       @ [Post (page st), Post (page st + 1), Post (page st + 1)]\<rparr>"
    if again: "1 \<le> page st
              \<and> srv (requests st + 2) (page st + 1) = Returns again \<and> status_code again = 200
              \<and> \<not> empty_text (py_strip (resp_text again))
              \<and> json_body again = Some j' \<and> is_empty_response j' = Inr False
              \<and> py_in ''QWGJK'' j' = Inr True \<and> extract_rows j' = Inr rows'"
    for again j' rows'
  proof -
    have later: "page st3 \<noteq> 1" using again assms(13) by simp
    have fields: "requests st3 = requests st + 2" "page st3 = page st + 1"
      "all_data st3 = all_data st @ rows" "total_count st3 = total_count (page_state j st)"
      using assms(13) by simp_all
    have "try_body cfg srv st3 =
        verify_next_page cfg srv ((page_state j' st3)\<lparr>all_data := all_data st3 @ rows'\<rparr>)"
    proof (rule try_body_total_reached [where resp = again and n = n])
      show "has_api_key cfg" by (rule assms(1))
      show "srv (requests st3) (page st3) = Returns again" using again fields by simp
      show "status_code again = 200" "\<not> empty_text (py_strip (resp_text again))"
        "json_body again = Some j'" "is_empty_response j' = Inr False"
        "py_in ''QWGJK'' j' = Inr True" "extract_rows j' = Inr rows'"
        using again by simp_all
      show "snd (read_total j' ((posted (page st3) st3)\<lparr>empty_response_count := 0\<rparr>)) = None"
        using later by (rule page_state_later_page(2))
      show "num_of (total_count (page_state j' st3)) = Some n"
        using assms(10) fields by (simp add: page_state_later_page(1) [OF later])
      show "n \<noteq> 0" by (rule assms(11))
      show "n \<le> int (length (all_data st3) + length rows')"
        using assms(12) fields by simp
    qed
    moreover have "(page_state j' st3)\<lparr>all_data := all_data st3 @ rows'\<rparr> =
        \<lparr>all_data = all_data st @ rows @ rows', page = page st + 1,
         total_count = total_count (page_state j st), empty_response_count = 0,
         retry_count = retry_count st, requests = requests st + 3,
         events = events st @ [Post (page st), Post (page st + 1), Post (page st + 1)]\<rparr>"
      unfolding page_state_later_page(1) [OF later]
      using assms(13) by (simp add: posted_def)
    ultimately show ?thesis by (simp only:)
  qed
  from first_two third show ?thesis unfolding assms(13) by blast
qed

theorem verification_fetch_after_total_witness:
  "crawl_data default_config growing_server 0 0 =
     Some (Inr ([sample_row 1, sample_row 2, sample_row 3], JInt 2, True), 4,
           [Post 1, Post 2, Post 2, Post 3])
   \<and> try_body default_config growing_server
       \<lparr>all_data = [sample_row 1, sample_row 2], page = 2, total_count = JInt 2,
        empty_response_count = 0, retry_count = 0, requests = 2,
        events = [Post 1, Post 2]\<rparr> =
     verify_next_page default_config growing_server
       \<lparr>all_data = [sample_row 1, sample_row 2, sample_row 3], page = 2, total_count = JInt 2,
        empty_response_count = 0, retry_count = 0, requests = 3,
        events = [Post 1, Post 2, Post 2]\<rparr>"
proof -
  let ?st0 = "init_state 0 0"
  let ?j1 = "data_page 2 [sample_row 1, sample_row 2]"
  let ?r1 = "\<lparr>status_code = 200, resp_text = page_text, json_body = Some ?j1\<rparr>"
  let ?j2 = "rows_page [sample_row 3]"
  let ?r2 = "\<lparr>status_code = 200, resp_text = more_text, json_body = Some ?j2\<rparr>"
  define st3 where "st3 =
      \<lparr>all_data = [sample_row 1, sample_row 2], page = 2, total_count = JInt 2,
       empty_response_count = 0, retry_count = 0, requests = 2,
       events = [Post 1, Post 2]\<rparr>"
  define st5 where "st5 =
      \<lparr>all_data = [sample_row 1, sample_row 2, sample_row 3], page = 3, total_count = JInt 2,
       empty_response_count = 0, retry_count = 0, requests = 4,
       events = [Post 1, Post 2, Post 2, Post 3]\<rparr>"
  have j1: "is_empty_response ?j1 = Inr False" "py_in ''QWGJK'' ?j1 = Inr True"
    "extract_rows ?j1 = Inr [sample_row 1, sample_row 2]"
    by (simp_all add: is_empty_response_def extract_rows_def data_page_def)
  have j2: "is_empty_response ?j2 = Inr False" "py_in ''QWGJK'' ?j2 = Inr True"
    "extract_rows ?j2 = Inr [sample_row 3]"
    by (simp_all add: is_empty_response_def extract_rows_def rows_page_def)
  have total0: "total_count (page_state ?j1 ?st0) = JInt 2"
    "snd (read_total ?j1 ((posted (page ?st0) ?st0)\<lparr>empty_response_count := 0\<rparr>)) = None"
    by (simp_all add: page_state_def read_total_def data_page_def init_state_def)
  have total3: "total_count (page_state ?j2 st3) = JInt 2"
    "snd (read_total ?j2 ((posted (page st3) st3)\<lparr>empty_response_count := 0\<rparr>)) = None"
    by (simp_all add: page_state_def read_total_def st3_def posted_def)
  have st3: "st3 = \<lparr>all_data = all_data ?st0 @ [sample_row 1, sample_row 2],
       page = page ?st0 + 1, total_count = total_count (page_state ?j1 ?st0),
       empty_response_count = 0, retry_count = retry_count ?st0,
       requests = requests ?st0 + 2,
       events = events ?st0 @ [Post (page ?st0), Post (page ?st0 + 1)]\<rparr>"
    unfolding total0(1) by (simp add: st3_def init_state_def)
  have st5: "st5 = \<lparr>all_data = all_data st3 @ [sample_row 3],
       page = page st3 + 1, total_count = total_count (page_state ?j2 st3),
       empty_response_count = 0, retry_count = retry_count st3,
       requests = requests st3 + 2,
       events = events st3 @ [Post (page st3), Post (page st3 + 1)]\<rparr>"
    unfolding total3(1) by (simp add: st5_def st3_def)
  have first: "(\<forall>v. growing_server (Suc (requests ?st0)) (page ?st0 + 1) = Returns v
              \<and> status_code v = 200
              \<and> (empty_text (py_strip (resp_text v))
                  \<or> (\<exists>vj. json_body v = Some vj \<and> is_empty_response vj = Inr True))
            \<longrightarrow> crawl_loop default_config growing_server ?st0 =
                  Some (Inr (all_data ?st0 @ [sample_row 1, sample_row 2],
                             total_count (page_state ?j1 ?st0), True),
                        requests ?st0 + 2,
                        events ?st0 @ [Post (page ?st0), Post (page ?st0 + 1)]))
       \<and> (\<forall>v vj. growing_server (Suc (requests ?st0)) (page ?st0 + 1) = Returns v
              \<and> status_code v = 200 \<and> \<not> empty_text (py_strip (resp_text v))
              \<and> json_body v = Some vj \<and> is_empty_response vj = Inr False
            \<longrightarrow> crawl_loop default_config growing_server ?st0 =
                  crawl_loop default_config growing_server st3)
       \<and> (\<forall>again j' rows'. 1 \<le> page ?st0
              \<and> growing_server (requests ?st0 + 2) (page ?st0 + 1) = Returns again
              \<and> status_code again = 200
              \<and> \<not> empty_text (py_strip (resp_text again))
              \<and> json_body again = Some j' \<and> is_empty_response j' = Inr False
              \<and> py_in ''QWGJK'' j' = Inr True \<and> extract_rows j' = Inr rows'
            \<longrightarrow> try_body default_config growing_server st3 =
                  verify_next_page default_config growing_server
                    \<lparr>all_data = all_data ?st0 @ [sample_row 1, sample_row 2] @ rows',
                     page = page ?st0 + 1,
                     total_count = total_count (page_state ?j1 ?st0), empty_response_count = 0,
                     retry_count = retry_count ?st0, requests = requests ?st0 + 3,
                     events = events ?st0
                       @ [Post (page ?st0), Post (page ?st0 + 1), Post (page ?st0 + 1)]\<rparr>)"
  proof (rule verification_fetch_after_total [where resp = ?r1 and n = 2])
    show "has_api_key default_config" by simp
    show "growing_server (requests ?st0) (page ?st0) = Returns ?r1"
      by (simp add: growing_server_def init_state_def)
    show "status_code ?r1 = 200" "\<not> empty_text (py_strip (resp_text ?r1))"
      "json_body ?r1 = Some ?j1" by simp_all
    show "is_empty_response ?j1 = Inr False" "py_in ''QWGJK'' ?j1 = Inr True"
      "extract_rows ?j1 = Inr [sample_row 1, sample_row 2]" by (rule j1)+
    show "snd (read_total ?j1 ((posted (page ?st0) ?st0)\<lparr>empty_response_count := 0\<rparr>)) = None"
      by (rule total0)
    show "num_of (total_count (page_state ?j1 ?st0)) = Some 2" by (simp add: total0)
    show "(2::int) \<noteq> 0" by simp
    show "2 \<le> int (length (all_data ?st0) + length [sample_row 1, sample_row 2])"
      by (simp add: init_state_def)
    show "st3 = \<lparr>all_data = all_data ?st0 @ [sample_row 1, sample_row 2],
       page = page ?st0 + 1, total_count = total_count (page_state ?j1 ?st0),
       empty_response_count = 0, retry_count = retry_count ?st0,
       requests = requests ?st0 + 2,
       events = events ?st0 @ [Post (page ?st0), Post (page ?st0 + 1)]\<rparr>"
      by (rule st3)
  qed
  have probe: "growing_server (Suc (requests ?st0)) (page ?st0 + 1) = Returns ?r2
      \<and> status_code ?r2 = 200 \<and> \<not> empty_text (py_strip (resp_text ?r2))
      \<and> json_body ?r2 = Some ?j2 \<and> is_empty_response ?j2 = Inr False"
    by (simp add: growing_server_def init_state_def j2)
  from first probe have first_step:
    "crawl_loop default_config growing_server ?st0 = crawl_loop default_config growing_server st3"
    by blast
  have refetch: "1 \<le> page ?st0
      \<and> growing_server (requests ?st0 + 2) (page ?st0 + 1) = Returns ?r2
      \<and> status_code ?r2 = 200 \<and> \<not> empty_text (py_strip (resp_text ?r2))
      \<and> json_body ?r2 = Some ?j2 \<and> is_empty_response ?j2 = Inr False
      \<and> py_in ''QWGJK'' ?j2 = Inr True \<and> extract_rows ?j2 = Inr [sample_row 3]"
    by (simp add: growing_server_def init_state_def j2)
  from first refetch have "try_body default_config growing_server st3 =
      verify_next_page default_config growing_server
        \<lparr>all_data = all_data ?st0 @ [sample_row 1, sample_row 2] @ [sample_row 3],
         page = page ?st0 + 1,
         total_count = total_count (page_state ?j1 ?st0), empty_response_count = 0,
         retry_count = retry_count ?st0, requests = requests ?st0 + 3,
         events = events ?st0
           @ [Post (page ?st0), Post (page ?st0 + 1), Post (page ?st0 + 1)]\<rparr>"
    by blast
  then have again: "try_body default_config growing_server st3 =
     verify_next_page default_config growing_server
       \<lparr>all_data = [sample_row 1, sample_row 2, sample_row 3], page = 2, total_count = JInt 2,
        empty_response_count = 0, retry_count = 0, requests = 3,
        events = [Post 1, Post 2, Post 2]\<rparr>"
    unfolding total0(1) by (simp add: init_state_def eval_nat_numeral)
  have second: "\<forall>v. growing_server (Suc (requests st3)) (page st3 + 1) = Returns v
              \<and> status_code v = 200
              \<and> (empty_text (py_strip (resp_text v))
                  \<or> (\<exists>vj. json_body v = Some vj \<and> is_empty_response vj = Inr True))
            \<longrightarrow> crawl_loop default_config growing_server st3 =
                  Some (Inr (all_data st3 @ [sample_row 3],
                             total_count (page_state ?j2 st3), True),
                        requests st3 + 2,
                        events st3 @ [Post (page st3), Post (page st3 + 1)])"
  proof (rule verification_fetch_after_total
      [where resp = ?r2 and n = 2 and ?st3.0 = st5, THEN conjunct1])
    show "has_api_key default_config" by simp
    show "growing_server (requests st3) (page st3) = Returns ?r2"
      by (simp add: growing_server_def st3_def)
    show "status_code ?r2 = 200" "\<not> empty_text (py_strip (resp_text ?r2))"
      "json_body ?r2 = Some ?j2" by simp_all
    show "is_empty_response ?j2 = Inr False" "py_in ''QWGJK'' ?j2 = Inr True"
      "extract_rows ?j2 = Inr [sample_row 3]" by (rule j2)+
    show "snd (read_total ?j2 ((posted (page st3) st3)\<lparr>empty_response_count := 0\<rparr>)) = None"
      by (rule total3)
    show "num_of (total_count (page_state ?j2 st3)) = Some 2" by (simp add: total3)
    show "(2::int) \<noteq> 0" by simp
    show "2 \<le> int (length (all_data st3) + length [sample_row 3])"
      by (simp add: st3_def)
    show "st5 = \<lparr>all_data = all_data st3 @ [sample_row 3],
       page = page st3 + 1, total_count = total_count (page_state ?j2 st3),
       empty_response_count = 0, retry_count = retry_count st3,
       requests = requests st3 + 2,
       events = events st3 @ [Post (page st3), Post (page st3 + 1)]\<rparr>"
      by (rule st5)
  qed
  have ending: "growing_server (Suc (requests st3)) (page st3 + 1) = Returns braces_response
      \<and> status_code braces_response = 200
      \<and> (empty_text (py_strip (resp_text braces_response))
          \<or> (\<exists>vj. json_body braces_response = Some vj \<and> is_empty_response vj = Inr True))"
    by (simp add: growing_server_def st3_def braces_response_def)
  from second ending have "crawl_loop default_config growing_server st3 =
      Some (Inr (all_data st3 @ [sample_row 3], total_count (page_state ?j2 st3), True),
            requests st3 + 2, events st3 @ [Post (page st3), Post (page st3 + 1)])"
    by blast
  then have second_step: "crawl_loop default_config growing_server st3 =
      Some (Inr ([sample_row 1, sample_row 2, sample_row 3], JInt 2, True), 4,
            [Post 1, Post 2, Post 2, Post 3])"
    unfolding total3(1) by (simp add: st3_def eval_nat_numeral)
  from first_step second_step again show ?thesis
    by (simp add: crawl_data_def st3_def)
qed

lemma zero_text_not_empty [simp]: "\<not> empty_text (py_strip zero_text)"
  by code_simp

lemma zero_total_step:
  assumes "has_api_key cfg" and "page st = 1" and "all_data st = []"
  shows "step cfg zero_total_server st =
           on_exception cfg
             ((posted 1 st)\<lparr>empty_response_count := 0, total_count := JInt 0,
                             all_data := [sample_row 1, sample_row 2]\<rparr>)"
  using assms
  by (simp add: crawl_defs zero_total_server_def data_page_def Let_def)

lemma zero_total_crawl_from:
  assumes key: "has_api_key cfg" and delay: "0 \<le> api_retry_delay cfg"
  shows "all_data st = [] \<Longrightarrow> page st = 1 \<Longrightarrow>
     nat (api_max_retries cfg - retry_count st) = k \<Longrightarrow>
     crawl_loop cfg zero_total_server st =
       Some (Inr ([sample_row 1, sample_row 2], JInt 0, True), requests st + k + 1,
             events st @ concat (replicate k [Post 1, Sleep (api_retry_delay cfg)]) @ [Post 1])"
proof (induction k arbitrary: st)
  case 0
  let ?st1 = "(posted 1 st)\<lparr>empty_response_count := 0, total_count := JInt 0,
                             all_data := [sample_row 1, sample_row 2]\<rparr>"
  from 0 have "\<not> retry_count st < api_max_retries cfg" by simp
  then have "step cfg zero_total_server st = Exit ?st1"
    using zero_total_step [OF key, of st] 0 by (simp add: on_exception_def)
  then have "crawl_loop cfg zero_total_server st = Some (finished cfg ?st1)"
    by (subst crawl_loop.simps) simp
  moreover have "finish cfg ?st1 = Inr ([sample_row 1, sample_row 2], JInt 0, True)"
    by (simp add: finish_def Let_def)
  ultimately show ?case by (simp add: finished_def)
next
  case (Suc k)
  let ?st1 = "(posted 1 st)\<lparr>empty_response_count := 0, total_count := JInt 0,
                             all_data := [sample_row 1, sample_row 2]\<rparr>"
  let ?st' = "restart (slept (api_retry_delay cfg) ?st1)"
  from Suc.prems have "retry_count st < api_max_retries cfg" by simp
  then have "step cfg zero_total_server st = Call_in_handler (slept (api_retry_delay cfg) ?st1)"
    using zero_total_step [OF key, of st] delay Suc.prems by (simp add: on_exception_def)
  then have "crawl_loop cfg zero_total_server st = crawl_loop cfg zero_total_server ?st'"
    by (subst crawl_loop.simps) simp
  moreover have "nat (api_max_retries cfg - retry_count ?st') = k"
    using Suc.prems by simp
  ultimately show ?case
    using Suc.IH [of ?st'] by simp
qed

lemma zero_total_crawl:
  "crawl_data default_config zero_total_server 0 0 =
     Some (Inr ([sample_row 1, sample_row 2], JInt 0, True), 4,
           [Post 1, Sleep 5, Post 1, Sleep 5, Post 1, Sleep 5, Post 1])"
proof -
  have "nat (api_max_retries default_config - retry_count (init_state 0 0)) = Suc (Suc (Suc 0))"
    by (simp add: default_config_def init_state_def)
  moreover have "0 \<le> api_retry_delay default_config" by (simp add: default_config_def)
  ultimately have "crawl_loop default_config zero_total_server (init_state 0 0) =
      Some (Inr ([sample_row 1, sample_row 2], JInt 0, True),
            requests (init_state 0 0) + Suc (Suc (Suc 0)) + 1,
            events (init_state 0 0) @
              concat (replicate (Suc (Suc (Suc 0)))
                        [Post 1, Sleep (api_retry_delay default_config)]) @ [Post 1])"
    by (intro zero_total_crawl_from) (simp_all add: init_state_def)
  then show ?thesis
    by (simp add: crawl_data_def init_state_def default_config_def)
qed

lemma dropping_crawl:
  "crawl_data default_config dropping_server 0 0 =
     Some (Inr ([sample_row 1, sample_row 2], JInt 2, True), 4,
           [Post 1, Post 2, Post 2, Sleep 1, Post 3])"
proof -
  define st3 where "st3 =
      \<lparr>all_data = [sample_row 1, sample_row 2], page = 2, total_count = JInt 2,
       empty_response_count = 0, retry_count = 0, requests = 2,
       events = [Post 1, Post 2]\<rparr>"
  have "step default_config dropping_server (init_state 0 0) = Continue st3"
    by (simp add: crawl_defs dropping_server_def init_state_def data_page_def rows_page_def
          posted_def st3_def Let_def)
  then have first: "crawl_loop default_config dropping_server (init_state 0 0) =
      crawl_loop default_config dropping_server st3"
    by (subst crawl_loop.simps) simp
  have "crawl_loop default_config dropping_server st3 =
      Some (finish default_config st3, requests st3 + 2,
            events st3 @ [Post (page st3), Sleep 1, Post (page st3 + 1)])"
    by (rule consecutive_empty_texts_terminate [where ?r1.0 = braces_response and ?r2.0 = braces_response])
       (simp_all add: st3_def dropping_server_def braces_response_def)
  moreover have "finish default_config st3 = Inr ([sample_row 1, sample_row 2], JInt 2, True)"
    by (simp add: finish_def st3_def Let_def)
  ultimately show ?thesis
    using first by (simp add: crawl_data_def st3_def)
qed

text \<open>
  C4 as stated fails. The verification fetch of page 2 sees a third row, the second request
  of page 2 is answered with \<^verbatim>\<open>{}\<close>, and the crawl returns the first two rows as
  complete: the row seen by the probe is dropped. And a page that announces a total of 0 with
  two rows makes the percentage computation raise, so that no verification fetch is made and
  the unit is retried until the retries are used up.
\<close>

theorem probe_rows_dropped_counterexample:
  "crawl_data default_config dropping_server 0 0 =
     Some (Inr ([sample_row 1, sample_row 2], JInt 2, True), 4,
           [Post 1, Post 2, Post 2, Sleep 1, Post 3])
   \<and> dropping_server 1 2 =
       Returns \<lparr>status_code = 200, resp_text = more_text,
                json_body = Some (rows_page [sample_row 3])\<rparr>
   \<and> extract_rows (rows_page [sample_row 3]) = Inr [sample_row 3]
   \<and> crawl_data default_config zero_total_server 0 0 =
     Some (Inr ([sample_row 1, sample_row 2], JInt 0, True), 4,
           [Post 1, Sleep 5, Post 1, Sleep 5, Post 1, Sleep 5, Post 1])"
  using dropping_crawl zero_total_crawl
  by (simp add: dropping_server_def extract_rows_def rows_page_def)

section \<open>The ledger\<close>

lemma count_line_fields [simp]:
  "log_date (count_line d year res) = d"
  "log_year (count_line d year res) = year"
  "log_expected (count_line d year res) = fst (snd res)"
  "log_collected (count_line d year res) = length (fst res)"
  "log_status (count_line d year res) = SUCCESS \<longleftrightarrow> snd (snd res)"
  by (cases res; simp add: count_line_def)+

lemma record_retry_still_incomplete:
  "record_retry item res new =
     new @ still_incomplete item (count_line (ir_date item) (ir_year item) res)"
  by (cases res) (simp add: record_retry_def still_incomplete_def)

lemma retry_loop_log:
  "retry_loop cfg world items rs = Some (err, rs') \<Longrightarrow>
     \<exists>ls. count_log rs' = count_log rs @ ls \<and> length ls \<le> length items
        \<and> (err = None \<longrightarrow> length ls = length items)
        \<and> map log_date ls = map ir_date (take (length ls) items)
        \<and> new_incomplete_dates rs' =
             new_incomplete_dates rs @ concat (map2 still_incomplete items ls)"
proof (induction items arbitrary: rs)
  case Nil
  then show ?case by auto
next
  case (Cons item rest)
  show ?case
  proof (cases "valid_date (ir_date item)")
    case False
    with Cons.prems have "rs' = rs" and "err = Some ValueError" by auto
    then show ?thesis by simp
  next
    case True
    let ?run = "crawl_data cfg (unit_server world (ir_year item) (ir_date item)) (clock rs) 0"
    from Cons.prems True obtain r where r: "?run = Some r" by (cases ?run) auto
    show ?thesis
    proof (cases "fst r")
      case (Inl e)
      with Cons.prems True r have "rs' = rs\<lparr>clock := fst (snd r)\<rparr>" and "err = Some e"
        by auto
      then show ?thesis by simp
    next
      case (Inr res)
      let ?l = "count_line (ir_date item) (ir_year item) res"
      let ?rs1 = "\<lparr>clock = fst (snd r),
                   new_incomplete_dates = record_retry item res (new_incomplete_dates rs),
                   count_log = count_log rs @ [?l]\<rparr>"
      from Cons.prems True r Inr have "retry_loop cfg world rest ?rs1 = Some (err, rs')" by simp
      from Cons.IH [OF this] obtain ls where
        ls: "count_log rs' = count_log ?rs1 @ ls" "length ls \<le> length rest"
          "err = None \<longrightarrow> length ls = length rest"
          "map log_date ls = map ir_date (take (length ls) rest)"
          "new_incomplete_dates rs' =
             new_incomplete_dates ?rs1 @ concat (map2 still_incomplete rest ls)"
        by blast
      show ?thesis
        using ls by (intro exI [of _ "?l # ls"]) (simp add: record_retry_still_incomplete)
    qed
  qed
qed

lemma still_incomplete_not_success:
  "map log_date ls = map ir_date (take (length ls) items) \<Longrightarrow>
     map ir_collected (concat (map2 still_incomplete items ls)) = map log_collected (not_success ls)
   \<and> map ir_date (concat (map2 still_incomplete items ls)) = map log_date (not_success ls)"
proof (induction ls arbitrary: items)
  case Nil
  then show ?case by (simp add: not_success_def)
next
  case (Cons l ls)
  show ?case
  proof (cases items)
    case Nil
    with Cons.prems show ?thesis by simp
  next
    case (Cons item rest)
    with Cons.prems have "map log_date ls = map ir_date (take (length ls) rest)"
      and "log_date l = ir_date item" by simp_all
    with Cons.IH [of rest] Cons show ?thesis
      by (simp add: still_incomplete_def not_success_def)
  qed
qed

lemma range_entry_ok_append: "range_entry_ok ls r \<Longrightarrow> range_entry_ok (ls @ ls') r"
  by (auto simp: range_entry_ok_def list_ex_iff)

lemma record_range_entries:
  assumes "list_all (range_entry_ok ls) new"
  shows "list_all (range_entry_ok (ls @ [count_line d year res])) (record_range d year res new)"
proof -
  have old: "list_all (range_entry_ok (ls @ [count_line d year res])) new"
    using assms by (auto simp: list_all_iff intro: range_entry_ok_append)
  obtain data expected c where res: "res = (data, expected, c)" by (cases res)
  show ?thesis
    using old unfolding res
    by (auto simp: record_range_def range_entry_ok_def list_ex_iff)
qed

lemma scan_units_entries:
  "scan_units cfg world units rs = Some (err, rs') \<Longrightarrow>
     list_all (range_entry_ok (count_log rs)) (new_incomplete_dates rs) \<Longrightarrow>
     list_all (range_entry_ok (count_log rs')) (new_incomplete_dates rs')"
proof (induction units arbitrary: rs)
  case Nil
  then show ?case by simp
next
  case (Cons u rest)
  show ?case
  proof (cases "snd u")
    case (Inl e)
    with Cons.prems show ?thesis by simp
  next
    case (Inr current_date)
    let ?run = "crawl_data cfg (unit_server world (fst u) current_date) (clock rs) 0"
    from Cons.prems Inr obtain r where r: "?run = Some r" by (cases ?run) auto
    show ?thesis
    proof (cases "fst r")
      case (Inl e)
      with Cons.prems Inr r show ?thesis by auto
    next
      case res: (Inr res)
      let ?rs1 = "\<lparr>clock = fst (snd r),
                   new_incomplete_dates =
                     record_range current_date (fst u) res (new_incomplete_dates rs),
                   count_log = count_log rs @ [count_line current_date (fst u) res]\<rparr>"
      from Cons.prems Inr r res have "scan_units cfg world rest ?rs1 = Some (err, rs')" by simp
      moreover have "list_all (range_entry_ok (count_log ?rs1)) (new_incomplete_dates ?rs1)"
        using record_range_entries [OF Cons.prems(2)] by simp
      ultimately show ?thesis by (rule Cons.IH)
    qed
  qed
qed

lemma record_date_not_success:
  "map ir_collected (record_date d year res []) =
     map log_collected (not_success [count_line d year res])"
  by (cases res) (simp add: record_date_def not_success_def)

lemma main_without_key:
  "\<not> has_api_key cfg \<Longrightarrow>
     main cfg world a ledger start =
       Some (Some ValueError, ledger, \<lparr>clock = start, new_incomplete_dates = [], count_log = []\<rparr>)"
  by (simp add: main_def Let_def)

lemma main_unparsed_date:
  "has_api_key cfg \<Longrightarrow> arg_date a = Some d \<Longrightarrow> \<not> valid_date d \<Longrightarrow>
     main cfg world a ledger start =
       Some (None, ledger, \<lparr>clock = start, new_incomplete_dates = [], count_log = []\<rparr>)"
  by (simp add: main_def Let_def)

lemma main_single_date:
  "has_api_key cfg \<Longrightarrow> arg_date a = Some d \<Longrightarrow> valid_date d \<Longrightarrow>
     main cfg world a ledger start =
       (case crawl_data cfg (unit_server world (fst d) d) start 0 of
          None \<Rightarrow> None
        | Some r \<Rightarrow>
            (case fst r of
               Inl e \<Rightarrow>
                 Some (None, ledger, \<lparr>clock = fst (snd r), new_incomplete_dates = [], count_log = []\<rparr>)
             | Inr res \<Rightarrow>
                 Some (None, ledger,
                       \<lparr>clock = fst (snd r), new_incomplete_dates = record_date d (fst d) res [],
                        count_log = [count_line d (fst d) res]\<rparr>)))"
  by (simp add: main_def Let_def split: option.splits sum.splits)

lemma main_retry:
  "has_api_key cfg \<Longrightarrow> arg_date a = None \<Longrightarrow>
   arg_retry_incomplete a \<and> load_incomplete_dates ledger \<noteq> [] \<Longrightarrow>
     main cfg world a ledger start =
       (case retry_loop cfg world (load_incomplete_dates ledger)
               \<lparr>clock = start, new_incomplete_dates = [], count_log = []\<rparr> of
          None \<Rightarrow> None
        | Some out \<Rightarrow>
            (case fst out of
               Some e \<Rightarrow> Some (Some e, ledger, snd out)
             | None \<Rightarrow> Some (None, Some (new_incomplete_dates (snd out)), snd out)))"
  by (auto simp: main_def Let_def save_incomplete_dates_def split: option.splits)

lemma main_range:
  "has_api_key cfg \<Longrightarrow> arg_date a = None \<Longrightarrow>
   \<not> (arg_retry_incomplete a \<and> load_incomplete_dates ledger \<noteq> []) \<Longrightarrow>
     main cfg world a ledger start =
       (case scan_units cfg world (planned_units cfg a)
               \<lparr>clock = start, new_incomplete_dates = [], count_log = []\<rparr> of
          None \<Rightarrow> None
        | Some out \<Rightarrow>
            (case fst out of
               Some e \<Rightarrow> Some (Some e, ledger, snd out)
             | None \<Rightarrow>
                 if year_range_empty cfg a then Some (Some UnboundLocalError, ledger, snd out)
                 else
                   Some (None,
                         (if new_incomplete_dates (snd out) \<noteq> []
                          then Some (new_incomplete_dates (snd out)) else ledger),
                         snd out)))"
  by (auto simp: main_def Let_def save_incomplete_dates_def split: option.splits)

lemma null_tail_step:
  assumes "has_api_key cfg" and "page st = 1"
  shows "step cfg null_tail_server st =
           on_exception cfg ((posted 1 st)\<lparr>empty_response_count := 0, total_count := JInt 100\<rparr>)"
  using assms
  by (simp add: crawl_defs null_tail_server_def null_tail_page_def Let_def)

lemma null_tail_crawl_from:
  assumes key: "has_api_key cfg" and delay: "0 \<le> api_retry_delay cfg"
  shows "all_data st = [] \<Longrightarrow> page st = 1 \<Longrightarrow>
     nat (api_max_retries cfg - retry_count st) = k \<Longrightarrow>
     crawl_loop cfg null_tail_server st =
       Some (Inr ([], JInt 100, False), requests st + k + 1,
             events st @ concat (replicate k [Post 1, Sleep (api_retry_delay cfg)]) @ [Post 1])"
proof (induction k arbitrary: st)
  case 0
  let ?st1 = "(posted 1 st)\<lparr>empty_response_count := 0, total_count := JInt 100\<rparr>"
  from 0 have "\<not> retry_count st < api_max_retries cfg" by simp
  then have "step cfg null_tail_server st = Exit ?st1"
    using null_tail_step [OF key, of st] 0 by (simp add: on_exception_def)
  then have "crawl_loop cfg null_tail_server st = Some (finished cfg ?st1)"
    by (subst crawl_loop.simps) simp
  moreover have "finish cfg ?st1 = Inr ([], JInt 100, False)"
    using 0 by (simp add: finish_def Let_def)
  ultimately show ?case by (simp add: finished_def)
next
  case (Suc k)
  let ?st1 = "(posted 1 st)\<lparr>empty_response_count := 0, total_count := JInt 100\<rparr>"
  let ?st' = "restart (slept (api_retry_delay cfg) ?st1)"
  from Suc.prems have "retry_count st < api_max_retries cfg" by simp
  then have "step cfg null_tail_server st = Call_in_handler (slept (api_retry_delay cfg) ?st1)"
    using null_tail_step [OF key, of st] delay Suc.prems by (simp add: on_exception_def)
  then have "crawl_loop cfg null_tail_server st = crawl_loop cfg null_tail_server ?st'"
    by (subst crawl_loop.simps) simp
  moreover have "nat (api_max_retries cfg - retry_count ?st') = k"
    using Suc.prems by simp
  ultimately show ?case
    using Suc.IH [of ?st'] by simp
qed

lemma null_tail_crawl:
  "crawl_data default_config null_tail_server 0 0 =
     Some (Inr ([], JInt 100, False), 4,
           [Post 1, Sleep 5, Post 1, Sleep 5, Post 1, Sleep 5, Post 1])"
proof -
  have "nat (api_max_retries default_config - retry_count (init_state 0 0)) = Suc (Suc (Suc 0))"
    by (simp add: default_config_def init_state_def)
  moreover have "0 \<le> api_retry_delay default_config" by (simp add: default_config_def)
  ultimately have "crawl_loop default_config null_tail_server (init_state 0 0) =
      Some (Inr ([], JInt 100, False), requests (init_state 0 0) + Suc (Suc (Suc 0)) + 1,
            events (init_state 0 0) @
              concat (replicate (Suc (Suc (Suc 0)))
                        [Post 1, Sleep (api_retry_delay default_config)]) @ [Post 1])"
    by (intro null_tail_crawl_from) (simp_all add: init_state_def)
  then show ?thesis
    by (simp add: crawl_data_def init_state_def default_config_def)
qed

lemma january_units:
  "planned_units default_config january_args = [(2023, Inr (2023, 1, 31))]"
proof -
  have "month_end_units 2023 2023 1 1 = [(2023, 1)]" by code_simp
  then show ?thesis
    by (simp add: planned_units_def january_args_def arg_or_def default_config_def
          get_last_day_of_month_def monthrange_days_def mdays_def)
qed

lemma january_valid [simp]: "valid_date (2023, 1, 31)"
  by (simp add: valid_date_def days_in_month_def mdays_def)

lemma january_range [simp]: "\<not> year_range_empty default_config january_args"
  by (simp add: year_range_empty_def january_args_def arg_or_def)

lemma run_retry_null_tail:
  "main default_config (constant_world null_tail_server) retry_args stale_ledger 0 =
     Some (None, Some [january_entry 0 (Some 1)],
           \<lparr>clock = 4, new_incomplete_dates = [january_entry 0 (Some 1)],
            count_log = [january_line (JInt 100) 0 INCOMPLETE]\<rparr>)"
  by (simp add: main_def Let_def retry_args_def stale_ledger_def load_incomplete_dates_def
        save_incomplete_dates_def null_tail_crawl record_retry_def count_line_def
        january_entry_def january_line_def)

lemma run_range_complete:
  "main default_config (constant_world complete_server) january_args stale_ledger 0 =
     Some (None, stale_ledger,
           \<lparr>clock = 2, new_incomplete_dates = [],
            count_log = [january_line (JInt 2) 2 SUCCESS]\<rparr>)"
proof -
  have "arg_date january_args = None" and "\<not> arg_retry_incomplete january_args"
    by (simp_all add: january_args_def)
  then show ?thesis
    by (simp add: main_def Let_def january_units complete_crawl record_range_def
          count_line_def january_line_def)
qed

lemma run_range_short:
  "main default_config (constant_world short_server) january_args stale_ledger 0 =
     Some (None, Some [january_entry 2 None],
           \<lparr>clock = 2, new_incomplete_dates = [january_entry 2 None],
            count_log = [january_line (JInt 100) 2 INCOMPLETE]\<rparr>)"
proof -
  have "arg_date january_args = None" and "\<not> arg_retry_incomplete january_args"
    by (simp_all add: january_args_def)
  then show ?thesis
    by (simp add: main_def Let_def january_units short_crawl record_range_def
          save_incomplete_dates_def count_line_def january_line_def january_entry_def)
qed

lemma run_date_complete:
  "main default_config (constant_world complete_server) date_args stale_ledger 0 =
     Some (None, stale_ledger,
           \<lparr>clock = 2, new_incomplete_dates = [],
            count_log = [january_line (JInt 2) 2 SUCCESS]\<rparr>)"
  by (simp add: main_def Let_def date_args_def complete_crawl record_date_def
        count_line_def january_line_def)

text \<open>
  C6, as amended: what is appended to \<^verbatim>\<open>new_incomplete_dates\<close> depends on the mode.
  In a range scan every entry belongs to a unit that is not complete, has a known total and
  has at least one collected row. In the retry mode (ledger not empty) and in the single-date
  mode there is one entry for every unit that is not complete, whatever its number of
  collected rows; the single-date mode never writes the ledger file.
\<close>

theorem ledger_entries_by_mode:
  assumes "main cfg world a ledger start = Some (err, ledger', rs)"
  shows "(arg_date a = None \<and> \<not> (arg_retry_incomplete a \<and> load_incomplete_dates ledger \<noteq> [])
            \<longrightarrow> list_all (range_entry_ok (count_log rs)) (new_incomplete_dates rs))
       \<and> (arg_date a = None \<and> arg_retry_incomplete a \<and> load_incomplete_dates ledger \<noteq> []
            \<longrightarrow> map ir_collected (new_incomplete_dates rs) =
                  map log_collected (not_success (count_log rs))
                \<and> map ir_date (new_incomplete_dates rs) =
                  map log_date (not_success (count_log rs)))
       \<and> (arg_date a \<noteq> None
            \<longrightarrow> ledger' = ledger
                \<and> map ir_collected (new_incomplete_dates rs) =
                  map log_collected (not_success (count_log rs)))"
proof (cases "has_api_key cfg")
  case False
  from assms main_without_key [OF False, where world = world and a = a and ledger = ledger and start = start]
  show ?thesis by (auto simp: not_success_def)
next
  case True
  let ?rs0 = "\<lparr>clock = start, new_incomplete_dates = [], count_log = []\<rparr>"
  show ?thesis
  proof (intro conjI impI)
    assume mode: "arg_date a = None \<and> \<not> (arg_retry_incomplete a \<and> load_incomplete_dates ledger \<noteq> [])"
    with assms main_range [OF True, where world = world and ledger = ledger and start = start]
    obtain e where "scan_units cfg world (planned_units cfg a) ?rs0 = Some (e, rs)"
      by (auto split: option.splits if_splits)
    from scan_units_entries [OF this]
    show "list_all (range_entry_ok (count_log rs)) (new_incomplete_dates rs)" by simp
  next
    assume mode: "arg_date a = None \<and> arg_retry_incomplete a \<and> load_incomplete_dates ledger \<noteq> []"
    with assms main_retry [OF True, where world = world and ledger = ledger and start = start]
    obtain e where "retry_loop cfg world (load_incomplete_dates ledger) ?rs0 = Some (e, rs)"
      by (auto split: option.splits)
    from retry_loop_log [OF this]
    have "map log_date (count_log rs) =
            map ir_date (take (length (count_log rs)) (load_incomplete_dates ledger))"
      and "new_incomplete_dates rs =
            concat (map2 still_incomplete (load_incomplete_dates ledger) (count_log rs))"
      by auto
    with still_incomplete_not_success [of "count_log rs" "load_incomplete_dates ledger"]
    show "map ir_collected (new_incomplete_dates rs) =
            map log_collected (not_success (count_log rs))"
      and "map ir_date (new_incomplete_dates rs) = map log_date (not_success (count_log rs))"
      by simp_all
  next
    assume "arg_date a \<noteq> None"
    then obtain d where d: "arg_date a = Some d" by auto
    show "ledger' = ledger"
    proof (cases "valid_date d")
      case True
      from assms main_single_date [OF \<open>has_api_key cfg\<close> d True, where world = world and ledger = ledger and start = start]
      show ?thesis by (auto split: option.splits sum.splits)
    next
      case False
      from assms main_unparsed_date [OF \<open>has_api_key cfg\<close> d False, where world = world and ledger = ledger and start = start]
      show ?thesis by simp
    qed
  next
    assume "arg_date a \<noteq> None"
    then obtain d where d: "arg_date a = Some d" by auto
    show "map ir_collected (new_incomplete_dates rs) =
                  map log_collected (not_success (count_log rs))"
    proof (cases "valid_date d")
      case True
      from assms main_single_date [OF \<open>has_api_key cfg\<close> d True, where world = world and ledger = ledger and start = start]
      show ?thesis
        by (auto simp: record_date_not_success not_success_def split: option.splits sum.splits)
    next
      case False
      from assms main_unparsed_date [OF \<open>has_api_key cfg\<close> d False, where world = world and ledger = ledger and start = start]
      show ?thesis by (auto simp: not_success_def)
    qed
  qed
qed

theorem ledger_entries_by_mode_witness:
  "list_all (range_entry_ok [january_line (JInt 100) 2 INCOMPLETE]) [january_entry 2 None]
   \<and> map ir_collected [january_entry 0 (Some 1)] =
       map log_collected (not_success [january_line (JInt 100) 0 INCOMPLETE])
   \<and> map ir_collected ([] :: incomplete_record list) =
       map log_collected (not_success [january_line (JInt 2) 2 SUCCESS])"
proof -
  have loaded: "load_incomplete_dates stale_ledger \<noteq> []"
    by (simp add: load_incomplete_dates_def stale_ledger_def)
  have "list_all (range_entry_ok [january_line (JInt 100) 2 INCOMPLETE]) [january_entry 2 None]"
    using ledger_entries_by_mode [OF run_range_short]
    by (simp add: january_args_def)
  moreover have "map ir_collected [january_entry 0 (Some 1)] =
       map log_collected (not_success [january_line (JInt 100) 0 INCOMPLETE])"
    using ledger_entries_by_mode [OF run_retry_null_tail] loaded
    by (simp add: retry_args_def)
  moreover have "map ir_collected ([] :: incomplete_record list) =
       map log_collected (not_success [january_line (JInt 2) 2 SUCCESS])"
    using ledger_entries_by_mode [OF run_date_complete]
    by (simp add: date_args_def)
  ultimately show ?thesis by simp
qed

text \<open>
  C6 as stated fails in the retry mode: a unit whose page 1 announces 100 records and then
  raises during the row extraction, on every attempt, ends with no rows and
  \<^verbatim>\<open>is_complete\<close> false, and its entry, with 0 collected rows, is written to the ledger.
\<close>

theorem retry_keeps_empty_unit_counterexample:
  "main default_config (constant_world null_tail_server) retry_args stale_ledger 0 =
     Some (None, Some [january_entry 0 (Some 1)],
           \<lparr>clock = 4, new_incomplete_dates = [january_entry 0 (Some 1)],
            count_log = [january_line (JInt 100) 0 INCOMPLETE]\<rparr>)
   \<and> ir_collected (january_entry 0 (Some 1)) = 0"
  using run_retry_null_tail by (simp add: january_entry_def)

text \<open>
  C7, as amended: a retry run over a ledger that is not empty overwrites the ledger with
  the entries of the units that are still incomplete, in order, each with
  \<^verbatim>\<open>previous_attempts\<close> incremented. A range scan overwrites the ledger with its own
  incomplete units when there is at least one, and leaves the ledger file as it was when
  there is none. A single-date run leaves the ledger file as it was.
\<close>

theorem ledger_file_after_run:
  assumes "main cfg world a ledger start = Some (None, ledger', rs)"
  shows "(arg_date a = None \<and> arg_retry_incomplete a \<and> load_incomplete_dates ledger \<noteq> []
            \<longrightarrow> ledger' = Some (concat (map2 still_incomplete (load_incomplete_dates ledger)
                                          (count_log rs)))
                \<and> map log_date (count_log rs) = map ir_date (load_incomplete_dates ledger))
       \<and> (arg_date a = None \<and> \<not> (arg_retry_incomplete a \<and> load_incomplete_dates ledger \<noteq> [])
            \<longrightarrow> ledger' = (if new_incomplete_dates rs = [] then ledger
                          else Some (new_incomplete_dates rs)))
       \<and> (arg_date a \<noteq> None \<longrightarrow> ledger' = ledger)"
proof -
  let ?rs0 = "\<lparr>clock = start, new_incomplete_dates = [], count_log = []\<rparr>"
  have key: "has_api_key cfg"
    using assms main_without_key [where cfg = cfg and world = world and a = a and ledger = ledger and start = start] by auto
  show ?thesis
  proof (intro conjI impI)
    assume mode: "arg_date a = None \<and> arg_retry_incomplete a \<and> load_incomplete_dates ledger \<noteq> []"
    with assms main_retry [OF key, where world = world and ledger = ledger and start = start]
    have loop: "retry_loop cfg world (load_incomplete_dates ledger) ?rs0 = Some (None, rs)"
      and saved: "ledger' = Some (new_incomplete_dates rs)"
      by (auto split: option.splits)
    from retry_loop_log [OF loop] saved
    show "ledger' = Some (concat (map2 still_incomplete (load_incomplete_dates ledger)
                                          (count_log rs)))"
      and "map log_date (count_log rs) = map ir_date (load_incomplete_dates ledger)"
      by auto
  next
    assume "arg_date a = None \<and> \<not> (arg_retry_incomplete a \<and> load_incomplete_dates ledger \<noteq> [])"
    with assms main_range [OF key, where world = world and ledger = ledger and start = start]
    show "ledger' = (if new_incomplete_dates rs = [] then ledger
                          else Some (new_incomplete_dates rs))"
      by (auto split: option.splits if_splits)
  next
    assume "arg_date a \<noteq> None"
    then obtain d where d: "arg_date a = Some d" by auto
    show "ledger' = ledger"
    proof (cases "valid_date d")
      case True
      from assms main_single_date [OF key d True, where world = world and ledger = ledger and start = start]
      show ?thesis by (auto split: option.splits sum.splits)
    next
      case False
      from assms main_unparsed_date [OF key d False, where world = world and ledger = ledger and start = start]
      show ?thesis by simp
    qed
  qed
qed

theorem ledger_file_after_run_witness:
  "Some [january_entry 0 (Some 1)] =
     Some (concat (map2 still_incomplete (load_incomplete_dates stale_ledger)
                     [january_line (JInt 100) 0 INCOMPLETE]))
   \<and> Some [january_entry 2 None] =
       (if [january_entry 2 None] = [] then stale_ledger else Some [january_entry 2 None])
   \<and> main default_config (constant_world complete_server) date_args stale_ledger 0 =
       Some (None, stale_ledger,
             \<lparr>clock = 2, new_incomplete_dates = [],
              count_log = [january_line (JInt 2) 2 SUCCESS]\<rparr>)"
proof -
  have loaded: "load_incomplete_dates stale_ledger \<noteq> []"
    by (simp add: load_incomplete_dates_def stale_ledger_def)
  have "Some [january_entry 0 (Some 1)] =
     Some (concat (map2 still_incomplete (load_incomplete_dates stale_ledger)
                     [january_line (JInt 100) 0 INCOMPLETE]))"
    using ledger_file_after_run [OF run_retry_null_tail] loaded
    by (simp add: retry_args_def)
  moreover have "Some [january_entry 2 None] =
       (if [january_entry 2 None] = [] then stale_ledger else Some [january_entry 2 None])"
    using ledger_file_after_run [OF run_range_short]
    by (simp add: january_args_def)
  moreover have "stale_ledger = stale_ledger"
    using ledger_file_after_run [OF run_date_complete]
    by (simp add: date_args_def)
  ultimately show ?thesis using run_date_complete by simp
qed

text \<open>
  C7 as stated fails for a range scan: January 2023 is collected to completion, no unit is
  incomplete, and the ledger still holds its earlier entry for 2023-01-31 after the run.
\<close>

theorem range_run_keeps_ledger_counterexample:
  "main default_config (constant_world complete_server) january_args stale_ledger 0 =
     Some (None, stale_ledger,
           \<lparr>clock = 2, new_incomplete_dates = [],
            count_log = [january_line (JInt 2) 2 SUCCESS]\<rparr>)
   \<and> stale_ledger = Some [january_entry 40 None]
   \<and> log_date (january_line (JInt 2) 2 SUCCESS) = ir_date (january_entry 40 None)"
  using run_range_complete
  by (simp add: stale_ledger_def january_entry_def january_line_def)

end
